theory Spec2Isabelle
  imports Main "HOL-Library.AList"
begin

section \<open>Terminal configuration (terminal-utils)\<close>

text \<open>
  \<^verbatim>\<open>TerminalLocation = "panel" | "editor"\<close> and \<^verbatim>\<open>TerminalConfig\<close> of
  \<^verbatim>\<open>types/terminal.ts\<close>. Every field of the interface is optional, so every field
  is an option; \<^verbatim>\<open>Partial<TerminalConfig>\<close> has the same shape. An environment
  (\<^verbatim>\<open>Record<string, string>\<close>) is a map from variable names to values.
\<close>

datatype TerminalLocation = Panel | Editor

record TerminalConfig =
  shell :: "string option"
  cwd :: "string option"
  env :: "(string \<rightharpoonup> string) option"
  cols :: "nat option"
  rows :: "nat option"
  location :: "TerminalLocation option"

definition DEFAULT_CONFIG :: TerminalConfig where
  "DEFAULT_CONFIG =
     \<lparr>shell = None, cwd = None, env = None, cols = Some 80, rows = Some 24, location = None\<rparr>"

text \<open>
  The object spread \<^verbatim>\<open>{...a, ...b}\<close>: a key of \<open>b\<close> replaces the same key of \<open>a\<close>.
  On configurations a field that the later object carries wins; on environments the
  spread is map override \<open>++\<close>.
\<close>

definition orElse :: "'a option \<Rightarrow> 'a option \<Rightarrow> 'a option" where
  "orElse later earlier = (case later of Some v \<Rightarrow> Some v | None \<Rightarrow> earlier)"

definition spreadConfig :: "TerminalConfig \<Rightarrow> TerminalConfig \<Rightarrow> TerminalConfig" where
  "spreadConfig a b =
     \<lparr>shell = orElse (shell b) (shell a), cwd = orElse (cwd b) (cwd a),
      env = orElse (env b) (env a), cols = orElse (cols b) (cols a),
      rows = orElse (rows b) (rows a), location = orElse (location b) (location a)\<rparr>"

text \<open>The three identification variables written between the two spreads of the environment.\<close>

definition forcedEnv :: "string \<rightharpoonup> string" where
  "forcedEnv =
     [''TERM_PROGRAM'' \<mapsto> ''ghostty_vscode'',
      ''TERM_PROGRAM_VERSION'' \<mapsto> ''0.4.0'',
      ''COLORTERM'' \<mapsto> ''truecolor'']"

text \<open>\<^verbatim>\<open>partial?.env ?? {}\<close>: the user's environment, empty when there is no
  configuration or it has no \<^verbatim>\<open>env\<close>.\<close>

definition userEnv :: "TerminalConfig option \<Rightarrow> (string \<rightharpoonup> string)" where
  "userEnv partial =
     (case partial of None \<Rightarrow> Map.empty
      | Some p \<Rightarrow> (case env p of None \<Rightarrow> Map.empty | Some e \<Rightarrow> e))"

text \<open>
  \<^verbatim>\<open>resolveConfig(partial?)\<close>; \<open>processEnv\<close> is \<^verbatim>\<open>process.env\<close> at the time of
  the call.
\<close>

definition resolveConfig :: "(string \<rightharpoonup> string) \<Rightarrow> TerminalConfig option \<Rightarrow> TerminalConfig" where
  "resolveConfig processEnv partial =
     (let merged = (case partial of None \<Rightarrow> DEFAULT_CONFIG
                    | Some p \<Rightarrow> spreadConfig DEFAULT_CONFIG p)
      in merged\<lparr>env := Some ((processEnv ++ forcedEnv) ++ userEnv partial)\<rparr>)"

definition resolvedEnv :: "(string \<rightharpoonup> string) \<Rightarrow> TerminalConfig option \<Rightarrow> (string \<rightharpoonup> string)" where
  "resolvedEnv processEnv partial =
     (case env (resolveConfig processEnv partial) of Some e \<Rightarrow> e | None \<Rightarrow> Map.empty)"



section \<open>The file existence cache (file-cache.ts)\<close>

text \<open>
  A JavaScript \<^verbatim>\<open>Map\<close> iterates in insertion order, so it is an association list
  with one entry for each key: \<^verbatim>\<open>get\<close> is \<open>map_of\<close>, \<^verbatim>\<open>set\<close> is
  \<open>AList.update\<close> (a present key keeps its place, a new key goes to the end) and
  \<^verbatim>\<open>delete\<close> is \<open>AList.delete\<close>.

  \<^verbatim>\<open>createFileCache(ttlMs, maxSize)\<close> closes over one such map. The model passes the
  two parameters and the reading of \<^verbatim>\<open>Date.now()\<close> to each operation; an
  operation returns the new map.
\<close>

record CacheEntry =
  exists :: bool
  timestamp :: int

type_synonym FileCache = "(string \<times> CacheEntry) list"

text \<open>\<^verbatim>\<open>get(path)\<close>: nothing for a missing or expired entry (the expired entry is
  deleted); a live entry moves to the end and its value is returned.\<close>

definition cache_get :: "int \<Rightarrow> int \<Rightarrow> string \<Rightarrow> FileCache \<Rightarrow> bool option \<times> FileCache" where
  "cache_get ttlMs now path cache =
     (case map_of cache path of
        None \<Rightarrow> (None, cache)
      | Some entry \<Rightarrow>
          if now - timestamp entry > ttlMs then (None, AList.delete path cache)
          else (Some (exists entry), AList.update path entry (AList.delete path cache)))"

text \<open>\<^verbatim>\<open>set(path, exists)\<close>: a present key is deleted first; otherwise, at capacity,
  the first key is deleted, unless it is the empty string (\<^verbatim>\<open>if (firstKey)\<close>) or the
  map is empty. Then the entry is written at the end.\<close>

definition cache_set :: "nat \<Rightarrow> int \<Rightarrow> string \<Rightarrow> bool \<Rightarrow> FileCache \<Rightarrow> FileCache" where
  "cache_set maxSize now path ex cache =
     (let cache1 =
        (if map_of cache path \<noteq> None then AList.delete path cache
         else if length cache \<ge> maxSize then
           (case cache of
              [] \<Rightarrow> cache
            | (firstKey, _) # _ \<Rightarrow>
                if firstKey \<noteq> [] then AList.delete firstKey cache else cache)
         else cache)
      in AList.update path \<lparr>exists = ex, timestamp = now\<rparr> cache1)"


section \<open>The batch file-existence coordinator of the panel webview\<close>

text \<open>
  \<^verbatim>\<open>createTerminalId\<close> returns \<^verbatim>\<open>randomUUID()\<close>: an identifier that was never
  returned before. The model numbers the identifiers.
\<close>

type_synonym TerminalId = nat

text \<open>
  Each call of \<^verbatim>\<open>_checkFileExists\<close> returns a new promise; a promise is named by a
  number, and the \<^verbatim>\<open>resolve\<close> callback stored in a batch is the promise's number.
  Calling a callback with a value is recorded in \<open>resolved\<close>; a promise keeps the first
  value it is resolved with.
\<close>

type_synonym Promise = nat

type_synonym BatchCallbacks = "(string \<times> Promise list) list"

text \<open>The callbacks handed to \<^verbatim>\<open>setTimeout\<close>: the debounce timer of
  \<^verbatim>\<open>_checkFileExists\<close> and the timeout of one sealed batch.\<close>

datatype WebviewTimer = DebounceTimer TerminalId | BatchTimeout nat

text \<open>The message \<^verbatim>\<open>batch-check-file-exists\<close> posted to the extension.\<close>

datatype WebviewPost = BatchCheckFileExists TerminalId nat "string list"

record Webview =
  fileCache :: FileCache
  nextBatchId :: nat
  pendingBatches :: "(nat \<times> BatchCallbacks) list"
  currentBatchCallbacks :: BatchCallbacks
  currentBatchId :: nat
  batchDebounceTimer :: "nat option"
  webviewTimers :: "(nat \<times> WebviewTimer) list"
  nextTimerHandle :: nat
  nextPromise :: Promise
  webviewPosted :: "WebviewPost list"
  resolved :: "(Promise \<times> bool) list"

text \<open>
  The state when the script has run its declarations: \<^verbatim>\<open>nextBatchId = 0\<close>, then
  \<^verbatim>\<open>currentBatchId = nextBatchId++\<close>. The browser's \<^verbatim>\<open>setTimeout\<close> returns
  positive handles, so a stored handle is truthy.
\<close>

definition initialWebview :: Webview where
  "initialWebview =
     \<lparr>fileCache = [], nextBatchId = 1, pendingBatches = [], currentBatchCallbacks = [],
      currentBatchId = 0, batchDebounceTimer = None, webviewTimers = [],
      nextTimerHandle = 1, nextPromise = 0, webviewPosted = [], resolved = []\<rparr>"

definition FILE_CACHE_TTL_MS :: int where "FILE_CACHE_TTL_MS = 5000"
definition FILE_CACHE_MAX_SIZE :: nat where "FILE_CACHE_MAX_SIZE = 100"

definition promiseValue :: "Webview \<Rightarrow> Promise \<Rightarrow> bool option" where
  "promiseValue w p = map_of (resolved w) p"

definition webviewSetTimeout :: "WebviewTimer \<Rightarrow> Webview \<Rightarrow> nat \<times> Webview" where
  "webviewSetTimeout cb w =
     (nextTimerHandle w,
      w\<lparr>webviewTimers := webviewTimers w @ [(nextTimerHandle w, cb)],
        nextTimerHandle := Suc (nextTimerHandle w)\<rparr>)"

definition webviewClearTimeout :: "nat \<Rightarrow> Webview \<Rightarrow> Webview" where
  "webviewClearTimeout h w = w\<lparr>webviewTimers := AList.delete h (webviewTimers w)\<rparr>"

text \<open>\<^verbatim>\<open>for (const cb of callbacks) cb(value)\<close>\<close>

definition callAll :: "Promise list \<Rightarrow> bool \<Rightarrow> Webview \<Rightarrow> Webview" where
  "callAll callbacks v w = w\<lparr>resolved := resolved w @ map (\<lambda>cb. (cb, v)) callbacks\<rparr>"

text \<open>\<^verbatim>\<open>flushBatchFileChecks(terminalId)\<close>\<close>

definition flushBatchFileChecks :: "TerminalId \<Rightarrow> Webview \<Rightarrow> Webview" where
  "flushBatchFileChecks terminalId w =
     (if currentBatchCallbacks w = [] then w
      else
        let batchId = currentBatchId w;
            batchCallbacks = currentBatchCallbacks w;
            w1 = w\<lparr>pendingBatches := AList.update batchId batchCallbacks (pendingBatches w)\<rparr>;
            w2 = w1\<lparr>currentBatchId := nextBatchId w1, nextBatchId := Suc (nextBatchId w1),
                    currentBatchCallbacks := []\<rparr>;
            paths = map fst batchCallbacks;
            w3 = w2\<lparr>webviewPosted :=
                      webviewPosted w2 @ [BatchCheckFileExists terminalId batchId paths]\<rparr>
        in snd (webviewSetTimeout (BatchTimeout batchId) w3))"

text \<open>The callback of the timeout that \<^verbatim>\<open>flushBatchFileChecks\<close> sets for its batch.\<close>

definition batchTimeoutFired :: "int \<Rightarrow> nat \<Rightarrow> Webview \<Rightarrow> Webview" where
  "batchTimeoutFired now batchId w =
     (case map_of (pendingBatches w) batchId of
        None \<Rightarrow> w
      | Some batch \<Rightarrow>
          foldl (\<lambda>w' (path, callbacks).
                   callAll callbacks False
                     (w'\<lparr>fileCache := cache_set FILE_CACHE_MAX_SIZE now path False (fileCache w')\<rparr>))
            (w\<lparr>pendingBatches := AList.delete batchId (pendingBatches w)\<rparr>) batch)"

text \<open>\<^verbatim>\<open>_checkFileExists(path, terminalId)\<close>, returning the promise and the new state.\<close>

definition checkFileExists :: "int \<Rightarrow> string \<Rightarrow> TerminalId \<Rightarrow> Webview \<Rightarrow> Promise \<times> Webview" where
  "checkFileExists now path terminalId w =
     (let (cached, cache') = cache_get FILE_CACHE_TTL_MS now path (fileCache w);
          promise = nextPromise w;
          w1 = w\<lparr>fileCache := cache', nextPromise := Suc promise\<rparr>
      in case cached of
           Some v \<Rightarrow> (promise, callAll [promise] v w1)
         | None \<Rightarrow>
             let w2 = w1\<lparr>currentBatchCallbacks :=
                        (case map_of (currentBatchCallbacks w1) path of
                           Some existing \<Rightarrow>
                             AList.update path (existing @ [promise]) (currentBatchCallbacks w1)
                         | None \<Rightarrow> AList.update path [promise] (currentBatchCallbacks w1))\<rparr>;
                 w3 = (case batchDebounceTimer w2 of
                         Some h \<Rightarrow> webviewClearTimeout h w2
                       | None \<Rightarrow> w2);
                 (h', w4) = webviewSetTimeout (DebounceTimer terminalId) w3
             in (promise, w4\<lparr>batchDebounceTimer := Some h'\<rparr>))"

text \<open>The handler of the message \<^verbatim>\<open>batch-file-exists-result\<close>.\<close>

definition handleBatchFileExistsResult ::
  "int \<Rightarrow> nat \<Rightarrow> (string \<times> bool) list \<Rightarrow> Webview \<Rightarrow> Webview" where
  "handleBatchFileExistsResult now batchId results w =
     (case map_of (pendingBatches w) batchId of
        None \<Rightarrow> w
      | Some batch \<Rightarrow>
          foldl (\<lambda>w' (path, ex).
                   case map_of batch path of
                     None \<Rightarrow> w'
                   | Some callbacks \<Rightarrow>
                       callAll callbacks ex
                         (w'\<lparr>fileCache := cache_set FILE_CACHE_MAX_SIZE now path ex (fileCache w')\<rparr>))
            (w\<lparr>pendingBatches := AList.delete batchId (pendingBatches w)\<rparr>) results)"

text \<open>A pending timer fires: it leaves the timer table and its callback runs. A handle that
  is not pending (cleared, or fired before) does nothing.\<close>

definition webviewTimerFires :: "int \<Rightarrow> nat \<Rightarrow> Webview \<Rightarrow> Webview" where
  "webviewTimerFires now h w =
     (case map_of (webviewTimers w) h of
        None \<Rightarrow> w
      | Some cb \<Rightarrow>
          let w1 = w\<lparr>webviewTimers := AList.delete h (webviewTimers w)\<rparr>
          in (case cb of
                DebounceTimer terminalId \<Rightarrow>
                  flushBatchFileChecks terminalId (w1\<lparr>batchDebounceTimer := None\<rparr>)
              | BatchTimeout batchId \<Rightarrow> batchTimeoutFired now batchId w1))"

text \<open>The events that reach the coordinator, each with the clock's reading when it is
  handled, and a run of events from a state.\<close>

datatype WebviewEvent =
    CheckFileExists int string TerminalId
  | TimerFires int nat
  | BatchFileExistsResult int nat "(string \<times> bool) list"

fun webviewStep :: "Webview \<Rightarrow> WebviewEvent \<Rightarrow> Webview" where
  "webviewStep w (CheckFileExists now path terminalId) = snd (checkFileExists now path terminalId w)"
| "webviewStep w (TimerFires now h) = webviewTimerFires now h w"
| "webviewStep w (BatchFileExistsResult now batchId results) =
     handleBatchFileExistsResult now batchId results w"

definition webviewRun :: "WebviewEvent list \<Rightarrow> Webview \<Rightarrow> Webview" where
  "webviewRun events w = foldl webviewStep w events"

text \<open>The promises that wait in a batch, and in any batch of the coordinator: the
  accumulating one and the sealed ones.\<close>

definition waitingIn :: "BatchCallbacks \<Rightarrow> Promise list" where
  "waitingIn batch = concat (map snd batch)"

definition waitingSealed :: "(nat \<times> BatchCallbacks) list \<Rightarrow> Promise list" where
  "waitingSealed batches = concat (map (\<lambda>e. waitingIn (snd e)) batches)"

definition waiting :: "Webview \<Rightarrow> Promise list" where
  "waiting w = waitingIn (currentBatchCallbacks w) @ waitingSealed (pendingBatches w)"

text \<open>
  The two loops over a batch in closed form: the callback calls they make, in order, and the
  cache they leave.
\<close>

definition timeoutCalls :: "BatchCallbacks \<Rightarrow> (Promise \<times> bool) list" where
  "timeoutCalls batch = concat (map (\<lambda>(path, callbacks). map (\<lambda>cb. (cb, False)) callbacks) batch)"

definition replyCalls :: "BatchCallbacks \<Rightarrow> (string \<times> bool) list \<Rightarrow> (Promise \<times> bool) list" where
  "replyCalls batch results =
     concat (map (\<lambda>(path, ex). case map_of batch path of
                                   None \<Rightarrow> []
                                 | Some callbacks \<Rightarrow> map (\<lambda>cb. (cb, ex)) callbacks) results)"

definition timeoutCache :: "int \<Rightarrow> BatchCallbacks \<Rightarrow> FileCache \<Rightarrow> FileCache" where
  "timeoutCache now batch cache =
     foldl (\<lambda>c path. cache_set FILE_CACHE_MAX_SIZE now path False c) cache (map fst batch)"

definition replyCache ::
  "int \<Rightarrow> BatchCallbacks \<Rightarrow> (string \<times> bool) list \<Rightarrow> FileCache \<Rightarrow> FileCache" where
  "replyCache now batch results cache =
     foldl (\<lambda>c (path, ex). case map_of batch path of
                               None \<Rightarrow> c
                             | Some callbacks \<Rightarrow> cache_set FILE_CACHE_MAX_SIZE now path ex c)
       cache results"


text \<open>The two updates of a cache miss in \<^verbatim>\<open>_checkFileExists\<close>: the callback enters the
  accumulating batch, and the debounce timer that was pending is cleared.\<close>

definition enqueue :: "string \<Rightarrow> Promise \<Rightarrow> BatchCallbacks \<Rightarrow> BatchCallbacks" where
  "enqueue path promise batch =
     (case map_of batch path of
        Some existing \<Rightarrow> AList.update path (existing @ [promise]) batch
      | None \<Rightarrow> AList.update path [promise] batch)"

definition rearm :: "Webview \<Rightarrow> (nat \<times> WebviewTimer) list" where
  "rearm w = (case batchDebounceTimer w of
                Some h \<Rightarrow> AList.delete h (webviewTimers w)
              | None \<Rightarrow> webviewTimers w)"

text \<open>
  What every state of the coordinator satisfies: a map has each key once; a promise waits
  in one place only, was created, and has not been resolved; a resolved promise was
  created; a pending timer's handle was handed out.
\<close>

definition webviewInv :: "Webview \<Rightarrow> bool" where
  "webviewInv w \<longleftrightarrow>
     distinct (map fst (currentBatchCallbacks w)) \<and>
     (\<forall>e \<in> set (pendingBatches w). distinct (map fst (snd e))) \<and>
     distinct (waiting w) \<and>
     (\<forall>c \<in> set (waiting w). c < nextPromise w \<and> c \<notin> fst ` set (resolved w)) \<and>
     (\<forall>c \<in> fst ` set (resolved w). c < nextPromise w) \<and>
     (\<forall>h \<in> fst ` set (webviewTimers w). h < nextTimerHandle w)"

text \<open>A promise that was created, waits in no batch and has not been resolved: no callback
  of it is stored anywhere.\<close>

definition forgotten :: "Webview \<Rightarrow> Promise \<Rightarrow> bool" where
  "forgotten w c \<longleftrightarrow>
     c < nextPromise w \<and> c \<notin> set (waiting w) \<and> c \<notin> fst ` set (resolved w)"





section \<open>The control-sequence scanners of the terminal manager\<close>

text \<open>
  PTY output is text that the scanners read character by character, and a decoded
  working directory can hold any character, so a chunk is a JavaScript string as the
  language has it: a list of UTF-16 code units.
\<close>

type_synonym jsString = "nat list"

text \<open>The only error a handler of the manager raises by itself.\<close>

datatype JsError = URIError

subsection \<open>The built-in \<^verbatim>\<open>decodeURIComponent\<close>\<close>

text \<open>
  \<^verbatim>\<open>decodeURIComponent\<close> is the language's built-in, not code of the repository; the
  model follows its definition (ECMAScript, \<^emph>\<open>Decode\<close> with an empty reserved set). A
  \<^verbatim>\<open>%\<close> must be followed by two hexadecimal digits; an octet below 128 is the
  character itself; an octet from 128 on starts a UTF-8 sequence of two to four octets,
  each further one escaped as well, that must be the encoding of a code point; the code
  point is appended as one or two code units. Everything else raises \<^verbatim>\<open>URIError\<close>.
\<close>

definition hexDigit :: "nat \<Rightarrow> nat option" where
  "hexDigit c =
     (if 48 \<le> c \<and> c \<le> 57 then Some (c - 48)
      else if 65 \<le> c \<and> c \<le> 70 then Some (c - 55)
      else if 97 \<le> c \<and> c \<le> 102 then Some (c - 87)
      else None)"

text \<open>The octet of an escape \<^verbatim>\<open>%XY\<close> at the head of the string, and the rest.\<close>

fun escapedOctet :: "jsString \<Rightarrow> (nat \<times> jsString) option" where
  "escapedOctet (p # x # y # rest) =
     (if p = 37 then
        (case (hexDigit x, hexDigit y) of
           (Some a, Some b) \<Rightarrow> Some (16 * a + b, rest)
         | _ \<Rightarrow> None)
      else None)"
| "escapedOctet _ = None"

text \<open>The next \<open>n\<close> escaped octets, each a continuation octet \<^verbatim>\<open>10xxxxxx\<close>.\<close>

fun continuationOctets :: "nat \<Rightarrow> jsString \<Rightarrow> (nat list \<times> jsString) option" where
  "continuationOctets 0 s = Some ([], s)"
| "continuationOctets (Suc n) s =
     (case escapedOctet s of
        None \<Rightarrow> None
      | Some (b, rest) \<Rightarrow>
          if 128 \<le> b \<and> b < 192 then
            (case continuationOctets n rest of
               None \<Rightarrow> None
             | Some (bs, rest') \<Rightarrow> Some (b # bs, rest'))
          else None)"

text \<open>The code point that a lead octet and its continuation octets encode, when they are
  the UTF-8 encoding of one: not overlong, not a surrogate, at most \<^verbatim>\<open>U+10FFFF\<close>.\<close>

definition utf8CodePoint :: "nat \<Rightarrow> nat list \<Rightarrow> nat option" where
  "utf8CodePoint b bs =
     (case bs of
        [c1] \<Rightarrow>
          (let v = (b - 192) * 64 + (c1 - 128)
           in if 192 \<le> b \<and> b < 224 \<and> 128 \<le> v then Some v else None)
      | [c1, c2] \<Rightarrow>
          (let v = (b - 224) * 4096 + (c1 - 128) * 64 + (c2 - 128)
           in if 224 \<le> b \<and> b < 240 \<and> 2048 \<le> v \<and> \<not> (55296 \<le> v \<and> v < 57344)
              then Some v else None)
      | [c1, c2, c3] \<Rightarrow>
          (let v = (b - 240) * 262144 + (c1 - 128) * 4096 + (c2 - 128) * 64 + (c3 - 128)
           in if 240 \<le> b \<and> b < 248 \<and> 65536 \<le> v \<and> v < 1114112 then Some v else None)
      | _ \<Rightarrow> None)"

definition utf16Units :: "nat \<Rightarrow> jsString" where
  "utf16Units v =
     (if v < 65536 then [v]
      else [55296 + (v - 65536) div 1024, 56320 + (v - 65536) mod 1024])"

text \<open>The number of leading one bits of an octet from 128 on, as far as it matters.\<close>

definition leadingOnes :: "nat \<Rightarrow> nat" where
  "leadingOnes b =
     (if b < 192 then 1 else if b < 224 then 2 else if b < 240 then 3
      else if b < 248 then 4 else 5)"

lemma escapedOctet_shorter: "escapedOctet s = Some (b, rest) \<Longrightarrow> length rest < length s"
  by (induction s rule: escapedOctet.induct) (auto split: if_splits option.splits)

lemma continuationOctets_shorter:
  "continuationOctets n s = Some (bs, rest) \<Longrightarrow> length rest \<le> length s"
proof (induction n arbitrary: s bs rest)
  case 0
  then show ?case by simp
next
  case (Suc n)
  then show ?case
    by (fastforce split: option.splits if_splits dest: escapedOctet_shorter)
qed

function decodeURIComponent :: "jsString \<Rightarrow> JsError + jsString" where
  "decodeURIComponent [] = Inr []"
| "decodeURIComponent (c # cs) =
     (if c \<noteq> 37 then
        (case decodeURIComponent cs of Inl e \<Rightarrow> Inl e | Inr r \<Rightarrow> Inr (c # r))
      else
        (case escapedOctet (c # cs) of
           None \<Rightarrow> Inl URIError
         | Some (b, rest) \<Rightarrow>
             if b < 128 then
               (case decodeURIComponent rest of Inl e \<Rightarrow> Inl e | Inr r \<Rightarrow> Inr (b # r))
             else if leadingOnes b = 1 \<or> leadingOnes b > 4 then Inl URIError
             else
               (case continuationOctets (leadingOnes b - 1) rest of
                  None \<Rightarrow> Inl URIError
                | Some (bs, rest') \<Rightarrow>
                    (case utf8CodePoint b bs of
                       None \<Rightarrow> Inl URIError
                     | Some v \<Rightarrow>
                         (case decodeURIComponent rest' of
                            Inl e \<Rightarrow> Inl e
                          | Inr r \<Rightarrow> Inr (utf16Units v @ r))))))"
  by pat_completeness auto
termination
proof (relation "measure length")
  show "wf (measure length)" by simp
next
  fix c :: nat and cs :: jsString
  show "(cs, c # cs) \<in> measure length" by simp
next
  fix c :: nat and cs x2 x y
  assume "escapedOctet (c # cs) = Some x2" "(x, y) = x2"
  then have "length y < length (c # cs)"
    using escapedOctet_shorter [of "c # cs" x y] by simp
  then show "(y, c # cs) \<in> measure length" by simp
next
  fix c :: nat and cs x2 x y x2a xa ya x2b
  assume "escapedOctet (c # cs) = Some x2" "(x, y) = x2"
    "continuationOctets (leadingOnes x - 1) y = Some x2a" "(xa, ya) = x2a"
  then have "length y < length (c # cs)" "length ya \<le> length y"
    using escapedOctet_shorter [of "c # cs" x y]
      continuationOctets_shorter [of "leadingOnes x - 1" y xa ya]
    by simp_all
  then show "(ya, c # cs) \<in> measure length" by simp
qed

subsection \<open>The two regular expressions\<close>

text \<open>
  \<^verbatim>\<open>data.match(re)\<close> without the global flag finds the leftmost match, trying the
  alternatives of the expression at each start in the order of backtracking. Both
  expressions end with \<^verbatim>\<open>(?:\x07|\x1b\\)\<close> after a greedy run of characters other
  than \<^verbatim>\<open>\x07\<close> and \<^verbatim>\<open>\x1b\<close>: only the longest run can be followed by the
  terminator.
\<close>

definition payloadChar :: "nat \<Rightarrow> bool" where
  "payloadChar c \<longleftrightarrow> c \<noteq> 7 \<and> c \<noteq> 27"

fun terminated :: "jsString \<Rightarrow> bool" where
  "terminated (c # rest) =
     (c = 7 \<or> (c = 27 \<and> (case rest of d # _ \<Rightarrow> d = 92 | [] \<Rightarrow> False)))"
| "terminated [] = False"

definition startsWith :: "'a list \<Rightarrow> 'a list \<Rightarrow> bool" where
  "startsWith s p \<longleftrightarrow> take (length p) s = p"

text \<open>\<^verbatim>\<open>\x1b]9;\<close> and \<^verbatim>\<open>\x1b]7;file://\<close>\<close>

definition OSC9_PREFIX :: jsString where
  "OSC9_PREFIX = [27, 93, 57, 59]"

definition OSC7_PREFIX :: jsString where
  "OSC7_PREFIX = [27, 93, 55, 59, 102, 105, 108, 101, 58, 47, 47]"

text \<open>\<^verbatim>\<open>([^\x07\x1b]*)(?:\x07|\x1b\\)\<close> at the head of a string: the group.\<close>

definition payloadThenTerminator :: "jsString \<Rightarrow> jsString option" where
  "payloadThenTerminator s =
     (if terminated (dropWhile payloadChar s) then Some (takeWhile payloadChar s) else None)"

fun matchOSC9 :: "jsString \<Rightarrow> jsString option" where
  "matchOSC9 [] = None"
| "matchOSC9 (c # cs) =
     (if startsWith (c # cs) OSC9_PREFIX then
        (case payloadThenTerminator (drop (length OSC9_PREFIX) (c # cs)) of
           Some g \<Rightarrow> Some g
         | None \<Rightarrow> matchOSC9 cs)
      else matchOSC9 cs)"

text \<open>
  \<^verbatim>\<open>[^/]*([^\x07\x1b]+)(?:\x07|\x1b\\)\<close> at the head of a string: the host part takes
  as many characters other than \<^verbatim>\<open>/\<close> as it can and gives them back one at a time
  until the rest matches; the group must not be empty.
\<close>

fun hostThenPath :: "nat \<Rightarrow> jsString \<Rightarrow> jsString option" where
  "hostThenPath k s =
     (case payloadThenTerminator (drop k s) of
        Some (g # gs) \<Rightarrow> Some (g # gs)
      | _ \<Rightarrow> (case k of 0 \<Rightarrow> None | Suc k' \<Rightarrow> hostThenPath k' s))"

fun matchOSC7 :: "jsString \<Rightarrow> jsString option" where
  "matchOSC7 [] = None"
| "matchOSC7 (c # cs) =
     (if startsWith (c # cs) OSC7_PREFIX then
        (let rest = drop (length OSC7_PREFIX) (c # cs)
         in case hostThenPath (length (takeWhile (\<lambda>d. d \<noteq> 47) rest)) rest of
              Some g \<Rightarrow> Some g
            | None \<Rightarrow> matchOSC7 cs)
      else matchOSC7 cs)"

text \<open>\<^verbatim>\<open>parseOSC7(data)\<close> and \<^verbatim>\<open>parseOSC9(data)\<close>\<close>

definition parseOSC7 :: "jsString \<Rightarrow> JsError + jsString option" where
  "parseOSC7 data =
     (case matchOSC7 data of
        Some g \<Rightarrow> (case decodeURIComponent g of Inl e \<Rightarrow> Inl e | Inr path \<Rightarrow> Inr (Some path))
      | None \<Rightarrow> Inr None)"

definition parseOSC9 :: "jsString \<Rightarrow> jsString option" where
  "parseOSC9 data = matchOSC9 data"

text \<open>An ASCII literal as a JavaScript string.\<close>

definition js :: "string \<Rightarrow> jsString" where
  "js s = map of_char s"


section \<open>The terminal manager (terminal-manager.ts) and the PTY service\<close>

subsection \<open>Messages, host readings and effects\<close>

text \<open>\<^verbatim>\<open>DisplaySettings\<close>, \<^verbatim>\<open>RuntimeConfig\<close> and \<^verbatim>\<open>TerminalTheme\<close> (a colour for
  some of the theme's keys) of \<^verbatim>\<open>types/messages.ts\<close>.\<close>

record DisplaySettings =
  fontFamily :: "string option"
  fontSize :: "nat option"

datatype BellStyle = visual | none

record RuntimeConfig =
  bellStyle :: BellStyle

type_synonym TerminalTheme = "string \<rightharpoonup> string"

text \<open>\<^verbatim>\<open>ExtensionMessage\<close>: a constructor for each \<^verbatim>\<open>type\<close> tag.\<close>

datatype ExtensionMessage =
    pty_data TerminalId jsString
  | pty_exit TerminalId int
  | resize TerminalId nat nat
  | update_settings TerminalId DisplaySettings
  | update_theme TerminalId TerminalTheme
  | update_cwd TerminalId jsString
  | batch_file_exists_result nat "(string \<times> bool) list"
  | update_config RuntimeConfig

text \<open>\<^verbatim>\<open>WebviewMessage\<close> and \<^verbatim>\<open>PanelWebviewMessage\<close>\<close>

datatype WebviewMessage =
    terminal_input TerminalId jsString
  | terminal_resize TerminalId nat nat
  | terminal_ready TerminalId nat nat
  | open_url TerminalId string
  | open_file TerminalId string "nat option" "nat option"
  | batch_check_file_exists TerminalId nat "string list"
  | terminal_bell TerminalId

datatype PanelWebviewMessage =
    common WebviewMessage
  | panel_ready
  | tab_activated TerminalId nat nat
  | tab_close_requested TerminalId
  | new_tab_requested
  | new_tab_requested_with_title string bool
  | tab_renamed TerminalId string
  | toggle_panel_requested

text \<open>
  What the editor and the operating system report when a handler asks: the settings
  behind \<^verbatim>\<open>getDisplaySettings\<close>, \<^verbatim>\<open>resolveTerminalTheme\<close> and
  \<^verbatim>\<open>getRuntimeConfig\<close>, the setting \<^verbatim>\<open>bootty.notifications\<close>, whether the panel is
  visible, the first workspace folder, \<^verbatim>\<open>process.env\<close>, and the error of
  \<^verbatim>\<open>pty.spawn\<close> if it is called now and fails.
\<close>

record Host =
  displaySettings :: DisplaySettings
  terminalTheme :: TerminalTheme
  runtimeConfig :: RuntimeConfig
  notifications :: bool
  panelVisible :: bool
  workspaceCwd :: "string option"
  hostEnv :: "string \<rightharpoonup> string"
  spawnError :: "string option"

text \<open>The callbacks the manager hands to \<^verbatim>\<open>setTimeout\<close>: the ready timeout of a
  terminal, the delayed close after its PTY exited, and the removal of the bell's status
  bar item.\<close>

datatype TimerCallback = ReadyTimeout TerminalId | ExitClose TerminalId | BellHide

text \<open>
  The calls the manager and the PTY service make on their collaborators, in the order
  they are made. A message posted by \<^verbatim>\<open>postToTerminal\<close> is recorded with the
  terminal it is posted for and the channel: the terminal's own webview panel for an
  editor terminal, the panel provider for a panel terminal.
\<close>

datatype Effect =
    Post TerminalLocation TerminalId ExtensionMessage
  | PanelAddTerminal TerminalId string bool
  | PanelRemoveTerminal TerminalId
  | PanelRenameTerminal TerminalId string
  | TreeAddTerminal TerminalId string bool
  | TreeRemoveTerminal TerminalId
  | TreeRenameTerminal TerminalId string
  | TreeSetActiveTerminal TerminalId
  | CreateWebviewPanel TerminalId
  | DisposeWebviewPanel TerminalId
  | ProcessSpawn TerminalId TerminalConfig
  | ProcessWrite TerminalId jsString
  | ProcessResize TerminalId nat nat
  | ProcessKill TerminalId
  | TimerSet nat TimerCallback
  | TimerCleared nat
  | ShowErrorMessage string
  | ShowInformationMessage jsString
  | ExecuteCommand string
  | OpenUrl string
  | OpenFile string "nat option" "nat option"
  | ShowBellItem
  | DisposeBellItem

subsection \<open>The state\<close>

text \<open>
  \<^verbatim>\<open>TerminalInstance\<close>. The webview panel of an editor terminal is created for the
  terminal's identifier and is named by it. A timer handle is a number.
\<close>

record TerminalInstance =
  instanceLocation :: TerminalLocation
  config :: TerminalConfig
  ready :: bool
  readyTimeout :: "nat option"
  dataQueue :: "jsString list"
  currentCwd :: "jsString option"
  title :: string
  index :: "nat option"

text \<open>
  The manager's \<^verbatim>\<open>terminals\<close> map and its set \<^verbatim>\<open>usedIndices\<close> (a set iterates in
  insertion order: a list without repetition), the keys of the PTY service's
  \<^verbatim>\<open>instances\<close>, the pending timers, the next timer handle and the next identifier, and
  the effects so far.
\<close>

record Manager =
  terminals :: "(TerminalId \<times> TerminalInstance) list"
  usedIndices :: "nat list"
  ptyInstances :: "TerminalId list"
  timers :: "(nat \<times> TimerCallback) list"
  nextTimer :: nat
  nextTerminalId :: TerminalId
  effects :: "Effect list"

definition initialManager :: Manager where
  "initialManager =
     \<lparr>terminals = [], usedIndices = [], ptyInstances = [], timers = [], nextTimer = 0,
      nextTerminalId = 0, effects = []\<rparr>"

definition MAX_DATA_QUEUE_SIZE :: nat where "MAX_DATA_QUEUE_SIZE = 1000"

definition emit :: "Effect \<Rightarrow> Manager \<Rightarrow> Manager" where
  "emit e s = s\<lparr>effects := effects s @ [e]\<rparr>"

text \<open>An assignment to a field of the instance registered for an identifier.\<close>

definition updateInstance ::
  "TerminalId \<Rightarrow> (TerminalInstance \<Rightarrow> TerminalInstance) \<Rightarrow> Manager \<Rightarrow> Manager" where
  "updateInstance id' f s = s\<lparr>terminals := AList.map_entry id' f (terminals s)\<rparr>"

definition setTimeout :: "TimerCallback \<Rightarrow> Manager \<Rightarrow> nat \<times> Manager" where
  "setTimeout cb s =
     (nextTimer s,
      emit (TimerSet (nextTimer s) cb)
        (s\<lparr>timers := timers s @ [(nextTimer s, cb)], nextTimer := Suc (nextTimer s)\<rparr>))"

definition clearTimeout :: "nat \<Rightarrow> Manager \<Rightarrow> Manager" where
  "clearTimeout h s = emit (TimerCleared h) (s\<lparr>timers := AList.delete h (timers s)\<rparr>)"

subsection \<open>The PTY service\<close>

text \<open>\<^verbatim>\<open>write\<close>, \<^verbatim>\<open>resize\<close> and \<^verbatim>\<open>kill\<close> act on the process of an identifier if
  the service has one.\<close>

definition ptyWrite :: "TerminalId \<Rightarrow> jsString \<Rightarrow> Manager \<Rightarrow> Manager" where
  "ptyWrite id' data s =
     (if id' \<in> set (ptyInstances s) then emit (ProcessWrite id' data) s else s)"

definition ptyResize :: "TerminalId \<Rightarrow> nat \<Rightarrow> nat \<Rightarrow> Manager \<Rightarrow> Manager" where
  "ptyResize id' ncols nrows s =
     (if id' \<in> set (ptyInstances s) then emit (ProcessResize id' ncols nrows) s else s)"

definition ptyKill :: "TerminalId \<Rightarrow> Manager \<Rightarrow> Manager" where
  "ptyKill id' s =
     (if id' \<in> set (ptyInstances s)
      then (emit (ProcessKill id') s)\<lparr>ptyInstances := removeAll id' (ptyInstances s)\<rparr>
      else s)"

text \<open>\<^verbatim>\<open>spawn\<close>: the error of a failed \<^verbatim>\<open>pty.spawn\<close> is caught and returned.\<close>

definition ptySpawn :: "Host \<Rightarrow> TerminalId \<Rightarrow> TerminalConfig \<Rightarrow> Manager \<Rightarrow> string option \<times> Manager" where
  "ptySpawn host id' cfg s =
     (case spawnError host of
        Some msg \<Rightarrow> (Some msg, s)
      | None \<Rightarrow>
          (None,
           (emit (ProcessSpawn id' cfg) s)
             \<lparr>ptyInstances := (if id' \<in> set (ptyInstances s) then ptyInstances s
                                else ptyInstances s @ [id'])\<rparr>))"

subsection \<open>Indices\<close>

text \<open>The loop of \<^verbatim>\<open>getNextIndex\<close>: the first index from \<open>index\<close> on that the set does
  not hold.\<close>

function nextFree :: "nat \<Rightarrow> nat list \<Rightarrow> nat" where
  "nextFree index' used = (if index' \<in> set used then nextFree (Suc index') used else index')"
  by pat_completeness auto
termination
proof (relation "measure (\<lambda>(i, used). Suc (Max (insert 0 (set used))) - i)")
  show "wf (measure (\<lambda>(i, used). Suc (Max (insert 0 (set used))) - i))" by simp
next
  fix index' :: nat and used :: "nat list"
  assume "index' \<in> set used"
  then have "index' \<le> Max (insert 0 (set used))" by simp
  then show "((Suc index', used), (index', used))
      \<in> measure (\<lambda>(i, used). Suc (Max (insert 0 (set used))) - i)"
    by simp
qed

definition getNextIndex :: "Manager \<Rightarrow> nat \<times> Manager" where
  "getNextIndex s =
     (let index' = nextFree 1 (usedIndices s)
      in (index',
          s\<lparr>usedIndices := (if index' \<in> set (usedIndices s) then usedIndices s
                             else usedIndices s @ [index'])\<rparr>))"

definition reserveIndex :: "nat option \<Rightarrow> Manager \<Rightarrow> Manager" where
  "reserveIndex index' s =
     (case index' of
        None \<Rightarrow> s
      | Some i \<Rightarrow> s\<lparr>usedIndices := (if i \<in> set (usedIndices s) then usedIndices s
                                     else usedIndices s @ [i])\<rparr>)"

definition releaseIndex :: "nat option \<Rightarrow> Manager \<Rightarrow> Manager" where
  "releaseIndex index' s =
     (case index' of
        None \<Rightarrow> s
      | Some i \<Rightarrow> s\<lparr>usedIndices := removeAll i (usedIndices s)\<rparr>)"

text \<open>The template \<^verbatim>\<open>`Terminal ${index}`\<close> and the match of
  \<^verbatim>\<open>/^Terminal (\d+)$/\<close> with \<^verbatim>\<open>parseInt\<close> of the group; an index is a number that
  \<^verbatim>\<open>parseInt\<close> represents exactly.\<close>

fun showNat :: "nat \<Rightarrow> string" where
  "showNat n = (if n < 10 then [''0123456789'' ! n]
                else showNat (n div 10) @ [''0123456789'' ! (n mod 10)])"

definition terminalTitle :: "nat \<Rightarrow> string" where
  "terminalTitle index' = ''Terminal '' @ showNat index'"

definition digitValue :: "char \<Rightarrow> nat option" where
  "digitValue c = map_of (zip ''0123456789'' [0 ..< 10]) c"

fun parseDigits :: "nat \<Rightarrow> string \<Rightarrow> nat option" where
  "parseDigits acc [] = Some acc"
| "parseDigits acc (c # cs) =
     (case digitValue c of
        None \<Rightarrow> None
      | Some d \<Rightarrow> parseDigits (10 * acc + d) cs)"

definition titleIndex :: "string \<Rightarrow> nat option" where
  "titleIndex t =
     (if startsWith t ''Terminal '' \<and> drop 9 t \<noteq> [] then parseDigits 0 (drop 9 t) else None)"


subsection \<open>Posting to a terminal\<close>

text \<open>\<^verbatim>\<open>postToTerminal(id, message)\<close>: nothing for an identifier that is not registered
  or whose instance is not ready.\<close>

definition postToTerminal :: "TerminalId \<Rightarrow> ExtensionMessage \<Rightarrow> Manager \<Rightarrow> Manager" where
  "postToTerminal id' message s =
     (case map_of (terminals s) id' of
        None \<Rightarrow> s
      | Some instance \<Rightarrow>
          if \<not> ready instance then s
          else emit (Post (instanceLocation instance) id' message) s)"

definition broadcastSettingsUpdate :: "Host \<Rightarrow> Manager \<Rightarrow> Manager" where
  "broadcastSettingsUpdate host s =
     foldl (\<lambda>s' (id', instance).
              if ready instance
              then postToTerminal id' (update_settings id' (displaySettings host)) s' else s')
       s (terminals s)"

definition broadcastThemeUpdate :: "Host \<Rightarrow> Manager \<Rightarrow> Manager" where
  "broadcastThemeUpdate host s =
     foldl (\<lambda>s' (id', instance).
              if ready instance
              then postToTerminal id' (update_theme id' (terminalTheme host)) s' else s')
       s (terminals s)"

subsection \<open>Teardown\<close>

text \<open>\<^verbatim>\<open>destroyTerminal(id)\<close>. Disposing the webview panel of an editor terminal runs the
  panel's dispose listener, which calls \<^verbatim>\<open>destroyTerminal\<close> for the same identifier:
  the identifier is no longer registered then, and the inner call returns at once.\<close>

definition destroyTerminal :: "Host \<Rightarrow> TerminalId \<Rightarrow> Manager \<Rightarrow> Manager" where
  "destroyTerminal host id' s =
     (case map_of (terminals s) id' of
        None \<Rightarrow> s
      | Some instance \<Rightarrow>
          let s1 = s\<lparr>terminals := AList.delete id' (terminals s)\<rparr>;
              s2 = releaseIndex (index instance) s1;
              s3 = (case readyTimeout instance of
                      Some h \<Rightarrow> clearTimeout h s2
                    | None \<Rightarrow> s2);
              s4 = ptyKill id' s3
          in if instanceLocation instance = Editor then emit (DisposeWebviewPanel id') s4
             else
               let s5 = emit (TreeRemoveTerminal id') (emit (PanelRemoveTerminal id') s4);
                   remainingPanelTerminals =
                     filter (\<lambda>t. instanceLocation t = Panel) (map snd (terminals s5))
               in if remainingPanelTerminals = [] \<and> panelVisible host
                  then emit (ExecuteCommand ''workbench.action.closePanel'') s5
                  else s5)"

subsection \<open>Creation\<close>

definition emptyConfig :: TerminalConfig where
  "emptyConfig =
     \<lparr>shell = None, cwd = None, env = None, cols = None, rows = None, location = None\<rparr>"

text \<open>\<^verbatim>\<open>spawnPty(id, config)\<close>, returning the error of a failed spawn.\<close>

definition spawnPty ::
  "Host \<Rightarrow> TerminalId \<Rightarrow> TerminalConfig option \<Rightarrow> Manager \<Rightarrow> string option \<times> Manager" where
  "spawnPty host id' cfg s =
     (let resolvedConfig = resolveConfig (hostEnv host) cfg;
          (result, s1) = ptySpawn host id' resolvedConfig s
      in case result of
           Some msg \<Rightarrow> (Some msg, emit (ShowErrorMessage (''Failed to start terminal: '' @ msg)) s1)
         | None \<Rightarrow> (None, s1))"

text \<open>The ready timeout is set and stored in the instance.\<close>

definition armReadyTimeout :: "TerminalId \<Rightarrow> Manager \<Rightarrow> Manager" where
  "armReadyTimeout id' s =
     (let (h, s1) = setTimeout (ReadyTimeout id') s
      in updateInstance id' (\<lambda>i. i\<lparr>readyTimeout := Some h\<rparr>) s1)"

definition createEditorTerminal ::
  "Host \<Rightarrow> TerminalConfig option \<Rightarrow> Manager \<Rightarrow> TerminalId option \<times> Manager" where
  "createEditorTerminal host cfg s =
     (let id' = nextTerminalId s;
          (index', s1) = getNextIndex (s\<lparr>nextTerminalId := Suc id'\<rparr>);
          s2 = emit (CreateWebviewPanel id') s1;
          instance = \<lparr>instanceLocation = Editor,
                      config = (case cfg of Some c \<Rightarrow> c | None \<Rightarrow> emptyConfig),
                      ready = False, readyTimeout = None, dataQueue = [], currentCwd = None,
                      title = terminalTitle index', index = Some index'\<rparr>;
          s3 = s2\<lparr>terminals := AList.update id' instance (terminals s2)\<rparr>;
          (spawnResult, s4) = spawnPty host id' cfg s3
      in case spawnResult of
           Some msg \<Rightarrow>
             (None,
              releaseIndex (Some index')
                ((emit (DisposeWebviewPanel id') s4)
                   \<lparr>terminals := AList.delete id' (terminals s4)\<rparr>))
         | None \<Rightarrow> (Some id', armReadyTimeout id' s4))"

definition createPanelTerminal ::
  "Host \<Rightarrow> TerminalConfig option \<Rightarrow> Manager \<Rightarrow> TerminalId option \<times> Manager" where
  "createPanelTerminal host cfg s =
     (let id' = nextTerminalId s;
          (index', s1) = getNextIndex (s\<lparr>nextTerminalId := Suc id'\<rparr>);
          title' = terminalTitle index';
          instance = \<lparr>instanceLocation = Panel,
                      config = (case cfg of Some c \<Rightarrow> c | None \<Rightarrow> emptyConfig),
                      ready = False, readyTimeout = None, dataQueue = [], currentCwd = None,
                      title = title', index = Some index'\<rparr>;
          s2 = s1\<lparr>terminals := AList.update id' instance (terminals s1)\<rparr>;
          (spawnResult, s3) = spawnPty host id' cfg s2
      in case spawnResult of
           Some msg \<Rightarrow>
             (None, releaseIndex (Some index') (s3\<lparr>terminals := AList.delete id' (terminals s3)\<rparr>))
         | None \<Rightarrow>
             (Some id',
              emit (TreeAddTerminal id' title' True)
                (emit (PanelAddTerminal id' title' True) (armReadyTimeout id' s3))))"

definition createPanelTerminalWithTitle ::
  "Host \<Rightarrow> string \<Rightarrow> bool \<Rightarrow> Manager \<Rightarrow> TerminalId option \<times> Manager" where
  "createPanelTerminalWithTitle host title' makeActive s =
     (let id' = nextTerminalId s;
          cwd' = workspaceCwd host;
          index' = titleIndex title';
          s1 = reserveIndex index' (s\<lparr>nextTerminalId := Suc id'\<rparr>);
          instance = \<lparr>instanceLocation = Panel, config = emptyConfig\<lparr>cwd := cwd'\<rparr>,
                      ready = False, readyTimeout = None, dataQueue = [], currentCwd = None,
                      title = title', index = index'\<rparr>;
          s2 = s1\<lparr>terminals := AList.update id' instance (terminals s1)\<rparr>;
          (spawnResult, s3) = spawnPty host id' (Some (emptyConfig\<lparr>cwd := cwd'\<rparr>)) s2
      in case spawnResult of
           Some msg \<Rightarrow>
             (None, releaseIndex index' (s3\<lparr>terminals := AList.delete id' (terminals s3)\<rparr>))
         | None \<Rightarrow>
             (Some id',
              emit (TreeAddTerminal id' title' makeActive)
                (emit (PanelAddTerminal id' title' makeActive) (armReadyTimeout id' s3))))"

definition createTerminal ::
  "Host \<Rightarrow> TerminalConfig option \<Rightarrow> Manager \<Rightarrow> TerminalId option \<times> Manager" where
  "createTerminal host cfg s =
     (let location' = (case cfg of
                         None \<Rightarrow> Panel
                       | Some c \<Rightarrow> (case location c of Some l \<Rightarrow> l | None \<Rightarrow> Panel))
      in if location' = Editor then createEditorTerminal host cfg s
         else createPanelTerminal host cfg s)"

subsection \<open>PTY output, the ready handshake, exit and error\<close>

definition handleOSC9Notification :: "Host \<Rightarrow> jsString \<Rightarrow> Manager \<Rightarrow> Manager" where
  "handleOSC9Notification host message s =
     (if \<not> notifications host then s else emit (ShowInformationMessage message) s)"

text \<open>
  \<^verbatim>\<open>handlePtyData(id, data)\<close>. \<^verbatim>\<open>parseOSC7\<close> runs before anything is written, so
  when it raises the state is as it was. A string is truthy when it is not empty.
\<close>

definition handlePtyData :: "Host \<Rightarrow> TerminalId \<Rightarrow> jsString \<Rightarrow> Manager \<Rightarrow> JsError + Manager" where
  "handlePtyData host id' data s =
     (case map_of (terminals s) id' of
        None \<Rightarrow> Inr s
      | Some instance \<Rightarrow>
          (case parseOSC7 data of
             Inl e \<Rightarrow> Inl e
           | Inr cwd' \<Rightarrow>
               let s1 = (case cwd' of
                           None \<Rightarrow> s
                         | Some dir \<Rightarrow>
                             if dir = [] then s
                             else
                               let s' = updateInstance id' (\<lambda>i. i\<lparr>currentCwd := Some dir\<rparr>) s
                               in if ready instance
                                  then postToTerminal id' (update_cwd id' dir) s' else s');
                   s2 = (case parseOSC9 data of
                           None \<Rightarrow> s1
                         | Some notification \<Rightarrow>
                             if notification = [] then s1
                             else handleOSC9Notification host notification s1)
               in Inr (if \<not> ready instance then
                         (if length (dataQueue instance) < MAX_DATA_QUEUE_SIZE
                          then updateInstance id' (\<lambda>i. i\<lparr>dataQueue := dataQueue i @ [data]\<rparr>) s2
                          else s2)
                       else postToTerminal id' (pty_data id' data) s2)))"

text \<open>\<^verbatim>\<open>handleTerminalReady(id, cols, rows)\<close>\<close>

definition handleTerminalReady :: "Host \<Rightarrow> TerminalId \<Rightarrow> nat \<Rightarrow> nat \<Rightarrow> Manager \<Rightarrow> Manager" where
  "handleTerminalReady host id' ncols nrows s =
     (case map_of (terminals s) id' of
        None \<Rightarrow> s
      | Some instance \<Rightarrow>
          let s1 = (case readyTimeout instance of
                      Some h \<Rightarrow> updateInstance id' (\<lambda>i. i\<lparr>readyTimeout := None\<rparr>) (clearTimeout h s)
                    | None \<Rightarrow> s);
              s2 = ptyResize id' ncols nrows s1;
              s3 = updateInstance id' (\<lambda>i. i\<lparr>ready := True\<rparr>) s2;
              s4 = postToTerminal id' (update_settings id' (displaySettings host)) s3;
              s5 = postToTerminal id' (update_theme id' (terminalTheme host)) s4;
              s6 = postToTerminal id' (update_config (runtimeConfig host)) s5;
              s7 = foldl (\<lambda>s' data. postToTerminal id' (pty_data id' data) s') s6
                     (dataQueue instance)
          in updateInstance id' (\<lambda>i. i\<lparr>dataQueue := []\<rparr>) s7)"

definition handleTerminalInput :: "TerminalId \<Rightarrow> jsString \<Rightarrow> Manager \<Rightarrow> Manager" where
  "handleTerminalInput id' data s = ptyWrite id' data s"

definition handleTerminalResize :: "TerminalId \<Rightarrow> nat \<Rightarrow> nat \<Rightarrow> Manager \<Rightarrow> Manager" where
  "handleTerminalResize id' ncols nrows s = ptyResize id' ncols nrows s"

definition handleTabRenamed :: "TerminalId \<Rightarrow> string \<Rightarrow> Manager \<Rightarrow> Manager" where
  "handleTabRenamed id' title' s = updateInstance id' (\<lambda>i. i\<lparr>title := title'\<rparr>) s"

definition renameTerminal :: "TerminalId \<Rightarrow> string \<Rightarrow> Manager \<Rightarrow> Manager" where
  "renameTerminal id' title' s =
     (case map_of (terminals s) id' of
        None \<Rightarrow> s
      | Some instance \<Rightarrow>
          let s1 = updateInstance id' (\<lambda>i. i\<lparr>title := title'\<rparr>) s
          in if instanceLocation instance = Panel
             then emit (TreeRenameTerminal id' title') (emit (PanelRenameTerminal id' title') s1)
             else s1)"

text \<open>\<^verbatim>\<open>handleTerminalBell(id)\<close>\<close>

definition handleTerminalBell :: "Host \<Rightarrow> TerminalId \<Rightarrow> Manager \<Rightarrow> Manager" where
  "handleTerminalBell host id' s =
     (case map_of (terminals s) id' of
        None \<Rightarrow> s
      | Some instance \<Rightarrow>
          if bellStyle (runtimeConfig host) = none then s
          else snd (setTimeout BellHide (emit ShowBellItem s)))"

text \<open>\<^verbatim>\<open>handlePtyExit(id, exitCode)\<close>: the timer of the delayed close is set and its handle
  is kept nowhere.\<close>

definition handlePtyExit :: "TerminalId \<Rightarrow> int \<Rightarrow> Manager \<Rightarrow> Manager" where
  "handlePtyExit id' exitCode s =
     (case map_of (terminals s) id' of
        None \<Rightarrow> s
      | Some instance \<Rightarrow>
          snd (setTimeout (ExitClose id') (postToTerminal id' (pty_exit id' exitCode) s)))"

text \<open>\<^verbatim>\<open>message.includes(part)\<close>\<close>

fun includesText :: "string \<Rightarrow> string \<Rightarrow> bool" where
  "includesText [] part = (part = [])"
| "includesText (c # cs) part = (startsWith (c # cs) part \<or> includesText cs part)"

definition handlePtyError :: "Host \<Rightarrow> TerminalId \<Rightarrow> string \<Rightarrow> Manager \<Rightarrow> Manager" where
  "handlePtyError host id' message s =
     (case map_of (terminals s) id' of
        None \<Rightarrow> s
      | Some instance \<Rightarrow>
          let isExpectedClose = includesText message ''EIO'' \<or> includesText message ''EOF'';
              s1 = (if \<not> isExpectedClose
                    then emit (ShowErrorMessage (''Terminal error: '' @ message)) s else s)
          in destroyTerminal host id' s1)"

subsection \<open>Messages from the webviews\<close>

text \<open>
  \<^verbatim>\<open>handleOpenUrl\<close> and \<^verbatim>\<open>handleOpenFile\<close> leave the manager's state alone; the
  model records that they were called. \<^verbatim>\<open>handleBatchCheckFileExists\<close> returns when the
  terminal is not registered and otherwise waits for the file system; nothing changes
  until the results are in, and then \<open>batchCheckResolved\<close> posts them.
\<close>

definition batchCheckResolved ::
  "TerminalId \<Rightarrow> nat \<Rightarrow> (string \<times> bool) list \<Rightarrow> Manager \<Rightarrow> Manager" where
  "batchCheckResolved terminalId batchId results s =
     postToTerminal terminalId (batch_file_exists_result batchId results) s"

fun handleWebviewMessage :: "Host \<Rightarrow> WebviewMessage \<Rightarrow> Manager \<Rightarrow> Manager" where
  "handleWebviewMessage host (terminal_ready id' ncols nrows) s =
     handleTerminalReady host id' ncols nrows s"
| "handleWebviewMessage host (terminal_input id' data) s = handleTerminalInput id' data s"
| "handleWebviewMessage host (terminal_resize id' ncols nrows) s =
     handleTerminalResize id' ncols nrows s"
| "handleWebviewMessage host (open_url id' url) s = emit (OpenUrl url) s"
| "handleWebviewMessage host (open_file id' path line column) s =
     emit (OpenFile path line column) s"
| "handleWebviewMessage host (batch_check_file_exists id' batchId paths) s = s"
| "handleWebviewMessage host (terminal_bell id') s = handleTerminalBell host id' s"

fun handlePanelMessage :: "Host \<Rightarrow> PanelWebviewMessage \<Rightarrow> Manager \<Rightarrow> Manager" where
  "handlePanelMessage host panel_ready s = s"
| "handlePanelMessage host (tab_activated id' ncols nrows) s =
     emit (TreeSetActiveTerminal id') (handleTerminalResize id' ncols nrows s)"
| "handlePanelMessage host (tab_close_requested id') s = destroyTerminal host id' s"
| "handlePanelMessage host new_tab_requested s =
     snd (createTerminal host
            (Some (emptyConfig\<lparr>location := Some Panel, cwd := workspaceCwd host\<rparr>)) s)"
| "handlePanelMessage host (new_tab_requested_with_title title' makeActive) s =
     snd (createPanelTerminalWithTitle host title' makeActive s)"
| "handlePanelMessage host (tab_renamed id' title') s = handleTabRenamed id' title' s"
| "handlePanelMessage host toggle_panel_requested s = s"
| "handlePanelMessage host (common message) s = handleWebviewMessage host message s"

subsection \<open>Timers\<close>

text \<open>
  The callback of the ready timeout reads \<^verbatim>\<open>ready\<close> of the instance it was set for.
  Identifiers are not reused, so while that instance is registered it is the registered
  instance of the identifier; when it is not registered its timer has been cleared
  (\<open>ready_timer_registered\<close> below), so the callback does not run.
\<close>

definition readyTimeoutFired :: "Host \<Rightarrow> TerminalId \<Rightarrow> Manager \<Rightarrow> Manager" where
  "readyTimeoutFired host id' s =
     (let notReady = (case map_of (terminals s) id' of
                        Some instance \<Rightarrow> \<not> ready instance
                      | None \<Rightarrow> True)
      in if notReady
         then destroyTerminal host id'
                (emit (ShowErrorMessage ''Terminal failed to initialize (timeout)'') s)
         else s)"

text \<open>A pending timer fires: it leaves the timer table and its callback runs.\<close>

definition timerFires :: "Host \<Rightarrow> nat \<Rightarrow> Manager \<Rightarrow> Manager" where
  "timerFires host h s =
     (case map_of (timers s) h of
        None \<Rightarrow> s
      | Some cb \<Rightarrow>
          let s1 = s\<lparr>timers := AList.delete h (timers s)\<rparr>
          in (case cb of
                ReadyTimeout id' \<Rightarrow> readyTimeoutFired host id' s1
              | ExitClose id' \<Rightarrow> destroyTerminal host id' s1
              | BellHide \<Rightarrow> emit DisposeBellItem s1))"

subsection \<open>Events and runs\<close>

text \<open>
  Everything that makes the manager act: a call of \<^verbatim>\<open>createTerminal\<close>, a message from
  the panel's webview or from the webview of an editor terminal, the callbacks of a PTY
  (an error is followed by the service's own \<^verbatim>\<open>kill\<close>), a timer, the results of a
  batch check, the user closing an editor terminal's panel, the tree view's close and
  rename, and a change of the settings or of the theme. An exception leaves the handler
  where it is raised; the state is what it was then.
\<close>

datatype Event =
    Create "TerminalConfig option"
  | FromPanel PanelWebviewMessage
  | FromWebview WebviewMessage
  | PtyData TerminalId jsString
  | PtyExit TerminalId int
  | PtyError TerminalId string
  | TimerFired nat
  | BatchCheckResolved TerminalId nat "(string \<times> bool) list"
  | PanelDisposed TerminalId
  | DestroyTerminalById TerminalId
  | RenameTerminal TerminalId string
  | SettingsChanged
  | ThemeChanged

fun step :: "Manager \<Rightarrow> Host \<times> Event \<Rightarrow> Manager" where
  "step s (host, Create cfg) = snd (createTerminal host cfg s)"
| "step s (host, FromPanel message) = handlePanelMessage host message s"
| "step s (host, FromWebview message) = handleWebviewMessage host message s"
| "step s (host, PtyData id' data) =
     (case handlePtyData host id' data s of Inl e \<Rightarrow> s | Inr s' \<Rightarrow> s')"
| "step s (host, PtyExit id' exitCode) = handlePtyExit id' exitCode s"
| "step s (host, PtyError id' message) = ptyKill id' (handlePtyError host id' message s)"
| "step s (host, TimerFired h) = timerFires host h s"
| "step s (host, BatchCheckResolved id' batchId results) =
     batchCheckResolved id' batchId results s"
| "step s (host, PanelDisposed id') = destroyTerminal host id' s"
| "step s (host, DestroyTerminalById id') = destroyTerminal host id' s"
| "step s (host, RenameTerminal id' title') = renameTerminal id' title' s"
| "step s (host, SettingsChanged) = broadcastSettingsUpdate host s"
| "step s (host, ThemeChanged) = broadcastThemeUpdate host s"

definition run :: "(Host \<times> Event) list \<Rightarrow> Manager \<Rightarrow> Manager" where
  "run events s = foldl step s events"

text \<open>A host for examples: default settings, the panel visible, spawning succeeds.\<close>

definition exampleHost :: Host where
  "exampleHost =
     \<lparr>displaySettings = \<lparr>fontFamily = Some ''monospace'', fontSize = Some 15\<rparr>,
      terminalTheme = Map.empty, runtimeConfig = \<lparr>bellStyle = visual\<rparr>,
      notifications = True, panelVisible = True, workspaceCwd = None,
      hostEnv = Map.empty, spawnError = None\<rparr>"

definition madeReady :: "TerminalInstance \<Rightarrow> TerminalInstance" where
  "madeReady t = t\<lparr>readyTimeout := None, ready := True, dataQueue := []\<rparr>"

definition afterPtyData :: "Host \<Rightarrow> TerminalId \<Rightarrow> jsString \<Rightarrow> Manager \<Rightarrow> Manager" where
  "afterPtyData host i d s = (case handlePtyData host i d s of Inl e \<Rightarrow> s | Inr s' \<Rightarrow> s')"

definition buffered :: "jsString option \<Rightarrow> bool \<Rightarrow> jsString \<Rightarrow> TerminalInstance \<Rightarrow> TerminalInstance" where
  "buffered dir push d t =
     (let t1 = (case dir of None \<Rightarrow> t | Some c \<Rightarrow> if c = [] then t else t\<lparr>currentCwd := Some c\<rparr>)
      in if push then t1\<lparr>dataQueue := dataQueue t1 @ [d]\<rparr> else t1)"

text \<open>The instance that a creation registers.\<close>

definition newInstance ::
  "TerminalLocation \<Rightarrow> TerminalConfig \<Rightarrow> string \<Rightarrow> nat option \<Rightarrow> TerminalInstance" where
  "newInstance loc cfg title' index' =
     \<lparr>instanceLocation = loc, config = cfg, ready = False, readyTimeout = None,
      dataQueue = [], currentCwd = None, title = title', index = index'\<rparr>"

text \<open>What a creation leaves in the registry for the new identifier: nothing when the spawn
  failed, the new instance with its ready timeout otherwise.\<close>

definition registered ::
  "Host \<Rightarrow> Manager \<Rightarrow> TerminalInstance \<Rightarrow> (TerminalId \<times> TerminalInstance) list" where
  "registered host s t =
     (case spawnError host of
        Some msg \<Rightarrow> AList.delete (nextTerminalId s) (terminals s)
      | None \<Rightarrow>
          AList.update (nextTerminalId s) (t\<lparr>readyTimeout := Some (nextTimer s)\<rparr>) (terminals s))"

text \<open>Invariants of the states the manager reaches: no queue is longer than the cap; an
  identifier in the registry was handed out and stands there once; a registered terminal
  has a process; a pending ready timeout belongs to a registered terminal that is not
  ready and stores the timer's handle.\<close>

definition queuesCapped :: "Manager \<Rightarrow> bool" where
  "queuesCapped s \<longleftrightarrow>
     (\<forall>e \<in> set (terminals s). length (dataQueue (snd e)) \<le> MAX_DATA_QUEUE_SIZE)"

definition idsFresh :: "Manager \<Rightarrow> bool" where
  "idsFresh s \<longleftrightarrow>
     (\<forall>e \<in> set (terminals s). fst e < nextTerminalId s) \<and> distinct (map fst (terminals s))"


definition readyTimersOwned :: "Manager \<Rightarrow> bool" where
  "readyTimersOwned s \<longleftrightarrow>
     (\<forall>e \<in> set (timers s). \<forall>k. snd e = ReadyTimeout k \<longrightarrow>
        (\<exists>t. map_of (terminals s) k = Some t \<and> readyTimeout t = Some (fst e) \<and> \<not> ready t))"

text \<open>
  The five ways an event changes the registry, the processes and the timers: not at all
  but for timers that are no ready timeouts; a write to fields of one instance other
  than \<^verbatim>\<open>ready\<close>, \<^verbatim>\<open>readyTimeout\<close>, \<^verbatim>\<open>index\<close> and \<^verbatim>\<open>location\<close>; the ready
  handshake of one terminal; the teardown of one terminal; a creation.
\<close>

definition quiet :: "Manager \<Rightarrow> Manager \<Rightarrow> bool" where
  "quiet s s' \<longleftrightarrow>
     terminals s' = terminals s \<and> usedIndices s' = usedIndices s
     \<and> ptyInstances s' = ptyInstances s \<and> nextTerminalId s' = nextTerminalId s
     \<and> (\<forall>e \<in> set (timers s'). e \<in> set (timers s) \<or> (\<forall>k. snd e \<noteq> ReadyTimeout k))"

definition touches ::
  "TerminalId \<Rightarrow> (TerminalInstance \<Rightarrow> TerminalInstance) \<Rightarrow> Manager \<Rightarrow> Manager \<Rightarrow> bool" where
  "touches k f s s' \<longleftrightarrow>
     terminals s' = AList.map_entry k f (terminals s) \<and> usedIndices s' = usedIndices s
     \<and> ptyInstances s' = ptyInstances s \<and> nextTerminalId s' = nextTerminalId s
     \<and> timers s' = timers s
     \<and> (\<forall>t. ready (f t) = ready t \<and> readyTimeout (f t) = readyTimeout t
              \<and> index (f t) = index t \<and> instanceLocation (f t) = instanceLocation t)"

definition readies :: "TerminalId \<Rightarrow> Manager \<Rightarrow> Manager \<Rightarrow> bool" where
  "readies k s s' \<longleftrightarrow>
     terminals s' = AList.map_entry k madeReady (terminals s) \<and> usedIndices s' = usedIndices s
     \<and> ptyInstances s' = ptyInstances s \<and> nextTerminalId s' = nextTerminalId s
     \<and> set (timers s') \<subseteq> set (timers s)
     \<and> (\<forall>t h. map_of (terminals s) k = Some t \<longrightarrow> readyTimeout t = Some h \<longrightarrow>
                h \<notin> fst ` set (timers s'))"

definition destroys :: "TerminalId \<Rightarrow> Manager \<Rightarrow> Manager \<Rightarrow> bool" where
  "destroys k s s' \<longleftrightarrow>
     terminals s' = AList.delete k (terminals s)
     \<and> usedIndices s'
         = (case map_of (terminals s) k of
              None \<Rightarrow> usedIndices s
            | Some t \<Rightarrow> (case index t of
                           None \<Rightarrow> usedIndices s
                         | Some n \<Rightarrow> removeAll n (usedIndices s)))
     \<and> set (ptyInstances s) - {k} \<subseteq> set (ptyInstances s')
     \<and> nextTerminalId s' = nextTerminalId s
     \<and> set (timers s') \<subseteq> set (timers s)
     \<and> (\<forall>t h. map_of (terminals s) k = Some t \<longrightarrow> readyTimeout t = Some h \<longrightarrow>
                h \<notin> fst ` set (timers s'))"

definition creates :: "Host \<Rightarrow> TerminalInstance \<Rightarrow> Manager \<Rightarrow> Manager \<Rightarrow> bool" where
  "creates host t s s' \<longleftrightarrow>
     terminals s' = registered host s t \<and> \<not> ready t \<and> dataQueue t = []
     \<and> nextTerminalId s' = Suc (nextTerminalId s)
     \<and> set (ptyInstances s) \<subseteq> set (ptyInstances s')
     \<and> (spawnError host = None \<longrightarrow> nextTerminalId s \<in> set (ptyInstances s'))
     \<and> timers s'
         = (case spawnError host of
              Some msg \<Rightarrow> timers s
            | None \<Rightarrow> timers s @ [(nextTimer s, ReadyTimeout (nextTerminalId s))])"

text \<open>A creation by \<^verbatim>\<open>createTerminal\<close> takes its index from \<^verbatim>\<open>getNextIndex\<close>.\<close>

definition takesNextIndex :: "Host \<Rightarrow> TerminalInstance \<Rightarrow> Manager \<Rightarrow> Manager \<Rightarrow> bool" where
  "takesNextIndex host t s s' \<longleftrightarrow>
     index t = Some (nextFree 1 (usedIndices s))
     \<and> usedIndices s'
         = (case spawnError host of
              Some msg \<Rightarrow> usedIndices s
            | None \<Rightarrow> usedIndices s @ [nextFree 1 (usedIndices s)])"

text \<open>The event that restores a tab under its saved title.\<close>

fun restoresTitle :: "Event \<Rightarrow> bool" where
  "restoresTitle (FromPanel (new_tab_requested_with_title t a)) = True"
| "restoresTitle _ = False"

text \<open>
  Examples: a terminal of the panel that received \<^verbatim>\<open>MAX_DATA_QUEUE_SIZE\<close> chunks before
  its handshake, and a chunk whose OSC 7 sequence ends in a lone percent sign.
\<close>

definition sessionAtCap :: Manager where
  "sessionAtCap =
     run ((exampleHost, Create None)
          # replicate MAX_DATA_QUEUE_SIZE (exampleHost, PtyData 0 (js ''x'')))
       initialManager"

definition malformedCwdChunk :: jsString where
  "malformedCwdChunk = [27, 93, 55, 59] @ js ''file://h/%'' @ [7]"

text \<open>A terminal whose process exits and whose tab is closed before the delayed close.\<close>

definition closedAfterExit :: Manager where
  "closedAfterExit =
     run [(exampleHost, Create None), (exampleHost, PtyExit 0 0),
          (exampleHost, FromPanel (tab_close_requested 0))] initialManager"





section \<open>Properties of the resolved spawn environment\<close>

lemma userEnv_wins:
  "userEnv partial k = Some v \<Longrightarrow> resolvedEnv processEnv partial k = Some v"
  by (simp add: resolvedEnv_def resolveConfig_def Let_def map_add_def)

lemma forced_when_not_overridden:
  "userEnv partial k = None \<Longrightarrow> forcedEnv k = Some v \<Longrightarrow>
   resolvedEnv processEnv partial k = Some v"
  by (simp add: resolvedEnv_def resolveConfig_def Let_def map_add_def)

lemma inherited_otherwise:
  "userEnv partial k = None \<Longrightarrow> forcedEnv k = None \<Longrightarrow>
   resolvedEnv processEnv partial k = processEnv k"
  by (simp add: resolvedEnv_def resolveConfig_def Let_def map_add_def)

text \<open>
  C8. For every partial configuration (also none at all) and every process environment,
  the environment of the resolved configuration is the process environment, overridden
  by the three identification variables, overridden by the user's environment. So a
  variable the user supplies has the user's value (the three identification variables
  included), each identification variable the user does not supply has its forced value
  whatever the process environment says, and every other variable is inherited.
\<close>

theorem resolveConfig_env_layers:
  "env (resolveConfig processEnv partial)
     = Some ((processEnv ++ forcedEnv) ++ userEnv partial)
   \<and> (\<forall>k v. userEnv partial k = Some v \<longrightarrow> resolvedEnv processEnv partial k = Some v)
   \<and> (userEnv partial ''TERM_PROGRAM'' = None \<longrightarrow>
        resolvedEnv processEnv partial ''TERM_PROGRAM'' = Some ''ghostty_vscode'')
   \<and> (userEnv partial ''TERM_PROGRAM_VERSION'' = None \<longrightarrow>
        resolvedEnv processEnv partial ''TERM_PROGRAM_VERSION'' = Some ''0.4.0'')
   \<and> (userEnv partial ''COLORTERM'' = None \<longrightarrow>
        resolvedEnv processEnv partial ''COLORTERM'' = Some ''truecolor'')
   \<and> (\<forall>k. userEnv partial k = None \<longrightarrow> forcedEnv k = None \<longrightarrow>
        resolvedEnv processEnv partial k = processEnv k)"
proof -
  have layers: "env (resolveConfig processEnv partial)
      = Some ((processEnv ++ forcedEnv) ++ userEnv partial)"
    by (simp add: resolveConfig_def Let_def)
  have tp: "forcedEnv ''TERM_PROGRAM'' = Some ''ghostty_vscode''"
    by (simp add: forcedEnv_def)
  have tv: "forcedEnv ''TERM_PROGRAM_VERSION'' = Some ''0.4.0''"
    by (simp add: forcedEnv_def)
  have ct: "forcedEnv ''COLORTERM'' = Some ''truecolor''"
    by (simp add: forcedEnv_def)
  show ?thesis
    using layers userEnv_wins forced_when_not_overridden [OF _ tp]
      forced_when_not_overridden [OF _ tv] forced_when_not_overridden [OF _ ct]
      inherited_otherwise
    by blast
qed

theorem resolveConfig_env_layers_witness:
  "resolvedEnv [''TERM_PROGRAM'' \<mapsto> ''xterm'', ''PATH'' \<mapsto> ''/bin'']
      (Some (DEFAULT_CONFIG\<lparr>env := Some [''COLORTERM'' \<mapsto> ''16'']\<rparr>)) ''TERM_PROGRAM''
     = Some ''ghostty_vscode''
   \<and> resolvedEnv [''TERM_PROGRAM'' \<mapsto> ''xterm'', ''PATH'' \<mapsto> ''/bin'']
      (Some (DEFAULT_CONFIG\<lparr>env := Some [''COLORTERM'' \<mapsto> ''16'']\<rparr>)) ''COLORTERM''
     = Some ''16''
   \<and> resolvedEnv [''TERM_PROGRAM'' \<mapsto> ''xterm'', ''PATH'' \<mapsto> ''/bin'']
      (Some (DEFAULT_CONFIG\<lparr>env := Some [''COLORTERM'' \<mapsto> ''16'']\<rparr>)) ''PATH''
     = Some ''/bin''"
proof -
  let ?pe = "[''TERM_PROGRAM'' \<mapsto> ''xterm'', ''PATH'' \<mapsto> ''/bin'']"
  let ?p = "Some (DEFAULT_CONFIG\<lparr>env := Some [''COLORTERM'' \<mapsto> ''16'']\<rparr>)"
  have u1: "userEnv ?p ''TERM_PROGRAM'' = None"
    by (simp add: userEnv_def)
  have u2: "userEnv ?p ''COLORTERM'' = Some ''16''"
    by (simp add: userEnv_def)
  have u3: "userEnv ?p ''PATH'' = None"
    by (simp add: userEnv_def)
  have f3: "forcedEnv ''PATH'' = None"
    by (simp add: forcedEnv_def)
  show ?thesis
    using resolveConfig_env_layers [of ?pe ?p] u1 u2 u3 f3 by simp
qed

section \<open>Properties of the batch file-existence coordinator\<close>

subsection \<open>Closed forms of the two loops over a batch\<close>

lemma timeout_loop:
  "foldl (\<lambda>w' (path, callbacks).
            callAll callbacks False
              (w'\<lparr>fileCache := cache_set FILE_CACHE_MAX_SIZE now path False (fileCache w')\<rparr>))
     w batch
   = w\<lparr>fileCache := timeoutCache now batch (fileCache w),
       resolved := resolved w @ timeoutCalls batch\<rparr>"
proof (induction batch arbitrary: w)
  case Nil
  show ?case by (simp add: timeoutCache_def timeoutCalls_def)
next
  case (Cons e batch)
  obtain path callbacks where e: "e = (path, callbacks)" by (cases e)
  have "foldl (\<lambda>w' (path, callbacks).
            callAll callbacks False
              (w'\<lparr>fileCache := cache_set FILE_CACHE_MAX_SIZE now path False (fileCache w')\<rparr>))
     w (e # batch)
     = (callAll callbacks False
          (w\<lparr>fileCache := cache_set FILE_CACHE_MAX_SIZE now path False (fileCache w)\<rparr>))
        \<lparr>fileCache := timeoutCache now batch
            (fileCache (callAll callbacks False
              (w\<lparr>fileCache := cache_set FILE_CACHE_MAX_SIZE now path False (fileCache w)\<rparr>))),
         resolved := resolved (callAll callbacks False
              (w\<lparr>fileCache := cache_set FILE_CACHE_MAX_SIZE now path False (fileCache w)\<rparr>))
            @ timeoutCalls batch\<rparr>"
    by (simp add: e Cons.IH)
  then show ?case
    by (simp add: e callAll_def timeoutCache_def timeoutCalls_def)
qed

lemma reply_loop:
  "foldl (\<lambda>w' (path, ex).
            case map_of batch path of
              None \<Rightarrow> w'
            | Some callbacks \<Rightarrow>
                callAll callbacks ex
                  (w'\<lparr>fileCache := cache_set FILE_CACHE_MAX_SIZE now path ex (fileCache w')\<rparr>))
     w results
   = w\<lparr>fileCache := replyCache now batch results (fileCache w),
       resolved := resolved w @ replyCalls batch results\<rparr>"
proof (induction results arbitrary: w)
  case Nil
  show ?case by (simp add: replyCache_def replyCalls_def)
next
  case (Cons r results)
  obtain path ex where r: "r = (path, ex)" by (cases r)
  show ?case
  proof (cases "map_of batch path")
    case None
    then show ?thesis
      by (simp add: r Cons.IH replyCache_def replyCalls_def)
  next
    case (Some callbacks)
    let ?w1 = "callAll callbacks ex
          (w\<lparr>fileCache := cache_set FILE_CACHE_MAX_SIZE now path ex (fileCache w)\<rparr>)"
    have "foldl (\<lambda>w' (path, ex).
            case map_of batch path of
              None \<Rightarrow> w'
            | Some callbacks \<Rightarrow>
                callAll callbacks ex
                  (w'\<lparr>fileCache := cache_set FILE_CACHE_MAX_SIZE now path ex (fileCache w')\<rparr>))
          w (r # results)
       = ?w1\<lparr>fileCache := replyCache now batch results (fileCache ?w1),
             resolved := resolved ?w1 @ replyCalls batch results\<rparr>"
      by (simp add: r Some Cons.IH)
    then show ?thesis
      by (simp add: r Some callAll_def replyCache_def replyCalls_def)
  qed
qed

lemma batchTimeoutFired_closed:
  "batchTimeoutFired now batchId w =
     (case map_of (pendingBatches w) batchId of
        None \<Rightarrow> w
      | Some batch \<Rightarrow>
          w\<lparr>pendingBatches := AList.delete batchId (pendingBatches w),
            fileCache := timeoutCache now batch (fileCache w),
            resolved := resolved w @ timeoutCalls batch\<rparr>)"
  by (simp add: batchTimeoutFired_def timeout_loop split: option.splits)

lemma handleBatchFileExistsResult_closed:
  "handleBatchFileExistsResult now batchId results w =
     (case map_of (pendingBatches w) batchId of
        None \<Rightarrow> w
      | Some batch \<Rightarrow>
          w\<lparr>pendingBatches := AList.delete batchId (pendingBatches w),
            fileCache := replyCache now batch results (fileCache w),
            resolved := resolved w @ replyCalls batch results\<rparr>)"
  by (simp add: handleBatchFileExistsResult_def reply_loop split: option.splits)


subsection \<open>Promises waiting in association lists\<close>

lemma waitingIn_Nil: "waitingIn [] = []"
  by (simp add: waitingIn_def)

lemma waitingIn_Cons: "waitingIn (e # m) = snd e @ waitingIn m"
  by (simp add: waitingIn_def)

lemma waitingSealed_Nil: "waitingSealed [] = []"
  by (simp add: waitingSealed_def)

lemma waitingSealed_Cons: "waitingSealed (e # m) = waitingIn (snd e) @ waitingSealed m"
  by (simp add: waitingSealed_def)

lemma waitingIn_update_Some:
  "map_of m k = Some xs \<Longrightarrow>
   set (waitingIn (AList.update k (xs @ [p]) m)) = insert p (set (waitingIn m))"
proof (induction m)
  case Nil
  then show ?case by simp
next
  case (Cons e m)
  obtain k' v where e: "e = (k', v)" by (cases e)
  show ?case
  proof (cases "k' = k")
    case True
    with Cons.prems have "v = xs" by (simp add: e)
    then show ?thesis using True by (simp add: e waitingIn_Cons)
  next
    case False
    with Cons.prems have "map_of m k = Some xs" by (simp add: e)
    then have "set (waitingIn (AList.update k (xs @ [p]) m)) = insert p (set (waitingIn m))"
      by (rule Cons.IH)
    then show ?thesis using False by (simp add: e waitingIn_Cons)
  qed
qed

lemma waitingIn_update_Some_distinct:
  "map_of m k = Some xs \<Longrightarrow> distinct (waitingIn m) \<Longrightarrow> p \<notin> set (waitingIn m) \<Longrightarrow>
   distinct (waitingIn (AList.update k (xs @ [p]) m))"
proof (induction m)
  case Nil
  then show ?case by simp
next
  case (Cons e m)
  obtain k' v where e: "e = (k', v)" by (cases e)
  show ?case
  proof (cases "k' = k")
    case True
    with Cons.prems show ?thesis by (auto simp: e waitingIn_def)
  next
    case False
    with Cons.prems have m: "map_of m k = Some xs" "distinct (waitingIn m)"
      "p \<notin> set (waitingIn m)" "p \<notin> set v" "distinct v" "set v \<inter> set (waitingIn m) = {}"
      by (auto simp: e waitingIn_def)
    have "set (waitingIn (AList.update k (xs @ [p]) m)) = insert p (set (waitingIn m))"
      using m(1) by (rule waitingIn_update_Some)
    moreover have "distinct (waitingIn (AList.update k (xs @ [p]) m))"
      using m(1-3) by (rule Cons.IH)
    ultimately show ?thesis
      using False m by (auto simp: e waitingIn_def)
  qed
qed

lemma waitingIn_update_None:
  "map_of m k = None \<Longrightarrow> waitingIn (AList.update k [p] m) = waitingIn m @ [p]"
  by (induction m) (auto simp: waitingIn_def)

lemma waitingIn_lookup:
  "map_of batch path = Some callbacks \<Longrightarrow> set callbacks \<subseteq> set (waitingIn batch)"
  by (induction batch) (auto simp: waitingIn_def split: if_splits)

lemma waitingSealed_lookup:
  "map_of m b = Some batch \<Longrightarrow> set (waitingIn batch) \<subseteq> set (waitingSealed m)"
  by (induction m) (auto simp: waitingSealed_def split: if_splits)

lemma waitingSealed_delete_subset:
  "set (waitingSealed (AList.delete b m)) \<subseteq> set (waitingSealed m)"
  by (induction m) (auto simp: waitingSealed_def)

lemma waitingSealed_delete_distinct:
  "distinct (waitingSealed m) \<Longrightarrow> distinct (waitingSealed (AList.delete b m))"
proof (induction m)
  case Nil
  then show ?case by simp
next
  case (Cons e m)
  have sub: "set (waitingSealed (AList.delete b m)) \<subseteq> set (waitingSealed m)"
    by (rule waitingSealed_delete_subset)
  from Cons.prems have "distinct (waitingSealed m)"
    by (simp add: waitingSealed_def)
  then have ih: "distinct (waitingSealed (AList.delete b m))" by (rule Cons.IH)
  from Cons.prems have dj: "set (waitingIn (snd e)) \<inter> set (waitingSealed m) = {}"
    "distinct (waitingIn (snd e))"
    by (auto simp: waitingSealed_def)
  show ?case
  proof (cases "fst e = b")
    case True
    then show ?thesis using ih by (cases e) simp
  next
    case False
    have "waitingSealed (AList.delete b (e # m))
          = waitingIn (snd e) @ waitingSealed (AList.delete b m)"
      using False by (cases e) (simp add: waitingSealed_def)
    then show ?thesis using ih dj sub by auto
  qed
qed

lemma waitingSealed_delete_disjoint:
  "distinct (waitingSealed m) \<Longrightarrow> map_of m b = Some batch \<Longrightarrow>
   set (waitingIn batch) \<inter> set (waitingSealed (AList.delete b m)) = {}"
proof (induction m)
  case Nil
  then show ?case by simp
next
  case (Cons e m)
  have sub: "set (waitingSealed (AList.delete b m)) \<subseteq> set (waitingSealed m)"
    by (rule waitingSealed_delete_subset)
  from Cons.prems have d: "distinct (waitingSealed m)"
    and dj: "set (waitingIn (snd e)) \<inter> set (waitingSealed m) = {}"
    by (auto simp: waitingSealed_def)
  show ?case
  proof (cases "fst e = b")
    case True
    with Cons.prems have "snd e = batch" by (cases e) simp
    moreover have "AList.delete b (e # m) = AList.delete b m"
      using True by (cases e) simp
    ultimately show ?thesis using dj sub by auto
  next
    case False
    with Cons.prems have look: "map_of m b = Some batch" by (cases e) simp
    have ih: "set (waitingIn batch) \<inter> set (waitingSealed (AList.delete b m)) = {}"
      using d look by (rule Cons.IH)
    have inm: "set (waitingIn batch) \<subseteq> set (waitingSealed m)"
      using look by (rule waitingSealed_lookup)
    have "waitingSealed (AList.delete b (e # m))
          = waitingIn (snd e) @ waitingSealed (AList.delete b m)"
      using False by (cases e) (simp add: waitingSealed_def)
    then show ?thesis using ih inm dj by auto
  qed
qed

lemma waitingSealed_update_subset:
  "set (waitingSealed (AList.update b v m)) \<subseteq> set (waitingIn v) \<union> set (waitingSealed m)"
  by (induction m) (auto simp: waitingSealed_def)

lemma waitingSealed_update_distinct:
  "distinct (waitingIn v @ waitingSealed m) \<Longrightarrow> distinct (waitingSealed (AList.update b v m))"
proof (induction m)
  case Nil
  then show ?case by (simp add: waitingSealed_def)
next
  case (Cons e m)
  have sub: "set (waitingSealed (AList.update b v m)) \<subseteq> set (waitingIn v) \<union> set (waitingSealed m)"
    by (rule waitingSealed_update_subset)
  from Cons.prems have pre: "distinct (waitingIn v @ waitingSealed m)"
    and dj: "set (waitingIn (snd e)) \<inter> set (waitingSealed m) = {}"
      "set (waitingIn (snd e)) \<inter> set (waitingIn v) = {}" "distinct (waitingIn (snd e))"
    by (auto simp: waitingSealed_def)
  have ih: "distinct (waitingSealed (AList.update b v m))"
    using pre by (rule Cons.IH)
  show ?case
  proof (cases "fst e = b")
    case True
    then have "waitingSealed (AList.update b v (e # m)) = waitingIn v @ waitingSealed m"
      by (cases e) (simp add: waitingSealed_def)
    then show ?thesis using pre by simp
  next
    case False
    then have "waitingSealed (AList.update b v (e # m))
               = waitingIn (snd e) @ waitingSealed (AList.update b v m)"
      by (cases e) (simp add: waitingSealed_def)
    then show ?thesis using ih dj sub by auto
  qed
qed

lemma timeoutCalls_callers: "fst ` set (timeoutCalls batch) = set (waitingIn batch)"
  by (induction batch) (auto simp: timeoutCalls_def waitingIn_def image_Un image_image)

lemma replyCalls_callers: "fst ` set (replyCalls batch results) \<subseteq> set (waitingIn batch)"
proof (induction results)
  case Nil
  show ?case by (simp add: replyCalls_def)
next
  case (Cons r results)
  obtain path ex where r: "r = (path, ex)" by (cases r)
  have step: "replyCalls batch (r # results)
      = (case map_of batch path of None \<Rightarrow> [] | Some callbacks \<Rightarrow> map (\<lambda>cb. (cb, ex)) callbacks)
        @ replyCalls batch results"
    by (simp add: replyCalls_def r)
  show ?case
  proof (cases "map_of batch path")
    case None
    then show ?thesis using Cons.IH step by simp
  next
    case (Some callbacks)
    have "set callbacks \<subseteq> set (waitingIn batch)"
      using Some by (rule waitingIn_lookup)
    then show ?thesis using Cons.IH step Some by (auto simp: image_Un image_image)
  qed
qed

lemma replyCalls_caller_in:
  "(c, v) \<in> set (replyCalls batch results) \<Longrightarrow> c \<in> set (waitingIn batch)"
  using replyCalls_callers [of batch results] by force

lemma set_alist_update: "set (AList.update k v al) \<subseteq> insert (k, v) (set al)"
  by (induction al) auto

subsection \<open>Closed forms of a check and of a flush\<close>

lemma checkFileExists_hit:
  "fst (cache_get FILE_CACHE_TTL_MS now path (fileCache w)) = Some v \<Longrightarrow>
   checkFileExists now path terminalId w =
     (nextPromise w,
      w\<lparr>fileCache := snd (cache_get FILE_CACHE_TTL_MS now path (fileCache w)),
        nextPromise := Suc (nextPromise w),
        resolved := resolved w @ [(nextPromise w, v)]\<rparr>)"
  by (cases "cache_get FILE_CACHE_TTL_MS now path (fileCache w)")
    (simp add: checkFileExists_def callAll_def Let_def)

lemma checkFileExists_miss:
  "fst (cache_get FILE_CACHE_TTL_MS now path (fileCache w)) = None \<Longrightarrow>
   checkFileExists now path terminalId w =
     (nextPromise w,
      w\<lparr>fileCache := snd (cache_get FILE_CACHE_TTL_MS now path (fileCache w)),
        nextPromise := Suc (nextPromise w),
        currentBatchCallbacks := enqueue path (nextPromise w) (currentBatchCallbacks w),
        webviewTimers := rearm w @ [(nextTimerHandle w, DebounceTimer terminalId)],
        nextTimerHandle := Suc (nextTimerHandle w),
        batchDebounceTimer := Some (nextTimerHandle w)\<rparr>)"
  by (cases "cache_get FILE_CACHE_TTL_MS now path (fileCache w)")
    (simp add: checkFileExists_def enqueue_def rearm_def webviewSetTimeout_def
      webviewClearTimeout_def Let_def split: option.splits)

lemma flushBatchFileChecks_closed:
  "flushBatchFileChecks terminalId w =
     (if currentBatchCallbacks w = [] then w
      else w\<lparr>pendingBatches :=
               AList.update (currentBatchId w) (currentBatchCallbacks w) (pendingBatches w),
             currentBatchId := nextBatchId w,
             nextBatchId := Suc (nextBatchId w),
             currentBatchCallbacks := [],
             webviewPosted := webviewPosted w @
               [BatchCheckFileExists terminalId (currentBatchId w)
                  (map fst (currentBatchCallbacks w))],
             webviewTimers := webviewTimers w @
               [(nextTimerHandle w, BatchTimeout (currentBatchId w))],
             nextTimerHandle := Suc (nextTimerHandle w)\<rparr>)"
  by (simp add: flushBatchFileChecks_def webviewSetTimeout_def Let_def)

lemma enqueue_keys: "distinct (map fst batch) \<Longrightarrow> distinct (map fst (enqueue path p batch))"
  by (simp add: enqueue_def distinct_update split: option.splits)

lemma enqueue_waiting: "set (waitingIn (enqueue path p batch)) = insert p (set (waitingIn batch))"
  by (simp add: enqueue_def waitingIn_update_Some waitingIn_update_None split: option.splits)

lemma enqueue_distinct:
  "distinct (waitingIn batch) \<Longrightarrow> p \<notin> set (waitingIn batch) \<Longrightarrow>
   distinct (waitingIn (enqueue path p batch))"
  by (simp add: enqueue_def waitingIn_update_Some_distinct waitingIn_update_None
      split: option.splits)

lemma rearm_subset: "set (rearm w) \<subseteq> set (webviewTimers w)"
  by (auto simp: rearm_def AList.delete_eq split: option.splits)


subsection \<open>The invariant of the coordinator\<close>

lemma webviewInv_initial: "webviewInv initialWebview"
  by (simp add: webviewInv_def initialWebview_def waiting_def waitingIn_def waitingSealed_def)

lemma webviewInv_check:
  assumes inv: "webviewInv w"
  shows "webviewInv (snd (checkFileExists now path terminalId w))"
proof -
  let ?p = "nextPromise w"
  from inv have keys: "distinct (map fst (currentBatchCallbacks w))"
    and sealed: "\<forall>e \<in> set (pendingBatches w). distinct (map fst (snd e))"
    and dist: "distinct (waiting w)"
    and wait: "\<forall>c \<in> set (waiting w). c < ?p \<and> c \<notin> fst ` set (resolved w)"
    and res: "\<forall>c \<in> fst ` set (resolved w). c < ?p"
    and tim: "\<forall>h \<in> fst ` set (webviewTimers w). h < nextTimerHandle w"
    unfolding webviewInv_def by blast+
  have fresh: "?p \<notin> set (waiting w)" "?p \<notin> fst ` set (resolved w)"
    using wait res by blast+
  show ?thesis
  proof (cases "fst (cache_get FILE_CACHE_TTL_MS now path (fileCache w))")
    case (Some v)
    have "webviewInv
      (w\<lparr>fileCache := snd (cache_get FILE_CACHE_TTL_MS now path (fileCache w)),
         nextPromise := Suc ?p, resolved := resolved w @ [(?p, v)]\<rparr>)"
      unfolding webviewInv_def waiting_def
      using keys sealed dist wait res tim fresh
      by (auto simp: waiting_def less_Suc_eq)
    then show ?thesis by (simp add: checkFileExists_hit [OF Some])
  next
    case None
    let ?cur = "enqueue path ?p (currentBatchCallbacks w)"
    have a: "distinct (map fst ?cur)" using keys by (rule enqueue_keys)
    have b: "set (waitingIn ?cur) = insert ?p (set (waitingIn (currentBatchCallbacks w)))"
      by (rule enqueue_waiting)
    have c: "distinct (waitingIn ?cur)"
      using dist fresh(1) by (intro enqueue_distinct) (auto simp: waiting_def)
    have d: "distinct (waitingIn ?cur @ waitingSealed (pendingBatches w))"
      using b c dist fresh(1) by (auto simp: waiting_def)
    have e: "set (waitingIn ?cur @ waitingSealed (pendingBatches w)) = insert ?p (set (waiting w))"
      using b by (auto simp: waiting_def)
    have f: "\<forall>h \<in> fst ` set (rearm w @ [(nextTimerHandle w, DebounceTimer terminalId)]).
               h < Suc (nextTimerHandle w)"
      using tim rearm_subset [of w] by (fastforce simp: less_Suc_eq)
    have g: "\<forall>c \<in> insert ?p (set (waiting w)). c < Suc ?p \<and> c \<notin> fst ` set (resolved w)"
      using wait fresh(2) by (auto simp: less_Suc_eq)
    have h: "\<forall>c \<in> fst ` set (resolved w). c < Suc ?p"
      using res by (auto simp: less_Suc_eq)
    have "webviewInv
      (w\<lparr>fileCache := snd (cache_get FILE_CACHE_TTL_MS now path (fileCache w)),
         nextPromise := Suc ?p,
         currentBatchCallbacks := ?cur,
         webviewTimers := rearm w @ [(nextTimerHandle w, DebounceTimer terminalId)],
         nextTimerHandle := Suc (nextTimerHandle w),
         batchDebounceTimer := Some (nextTimerHandle w)\<rparr>)"
      unfolding webviewInv_def waiting_def
      using a sealed d e f g h by simp
    then show ?thesis by (simp add: checkFileExists_miss [OF None])
  qed
qed

lemma webviewInv_flush:
  assumes inv: "webviewInv w"
  shows "webviewInv (flushBatchFileChecks terminalId w)"
proof (cases "currentBatchCallbacks w = []")
  case True
  then show ?thesis using inv by (simp add: flushBatchFileChecks_closed)
next
  case False
  let ?pend = "AList.update (currentBatchId w) (currentBatchCallbacks w) (pendingBatches w)"
  from inv have keys: "distinct (map fst (currentBatchCallbacks w))"
    and sealed: "\<forall>e \<in> set (pendingBatches w). distinct (map fst (snd e))"
    and dist: "distinct (waiting w)"
    and wait: "\<forall>c \<in> set (waiting w). c < nextPromise w \<and> c \<notin> fst ` set (resolved w)"
    and res: "\<forall>c \<in> fst ` set (resolved w). c < nextPromise w"
    and tim: "\<forall>h \<in> fst ` set (webviewTimers w). h < nextTimerHandle w"
    unfolding webviewInv_def by blast+
  have a: "\<forall>e \<in> set ?pend. distinct (map fst (snd e))"
    using keys sealed set_alist_update [of "currentBatchId w" "currentBatchCallbacks w"
        "pendingBatches w"]
    by auto
  have b: "distinct (waitingSealed ?pend)"
    using dist unfolding waiting_def by (rule waitingSealed_update_distinct)
  have c: "set (waitingSealed ?pend) \<subseteq> set (waiting w)"
    using waitingSealed_update_subset [of "currentBatchId w" "currentBatchCallbacks w"
        "pendingBatches w"]
    by (auto simp: waiting_def)
  have d: "\<forall>h \<in> fst ` set (webviewTimers w @
              [(nextTimerHandle w, BatchTimeout (currentBatchId w))]). h < Suc (nextTimerHandle w)"
    using tim by (fastforce simp: less_Suc_eq)
  have e: "\<forall>c \<in> set (waitingSealed ?pend). c < nextPromise w \<and> c \<notin> fst ` set (resolved w)"
    using c wait by blast
  show ?thesis
    unfolding webviewInv_def waiting_def
    using False a b d e res by (simp add: flushBatchFileChecks_closed waitingIn_Nil)
qed

lemma webviewInv_timeout:
  assumes inv: "webviewInv w"
  shows "webviewInv (batchTimeoutFired now batchId w)"
proof (cases "map_of (pendingBatches w) batchId")
  case None
  then show ?thesis using inv by (simp add: batchTimeoutFired_closed)
next
  case (Some batch)
  let ?pend = "AList.delete batchId (pendingBatches w)"
  from inv have keys: "distinct (map fst (currentBatchCallbacks w))"
    and sealed: "\<forall>e \<in> set (pendingBatches w). distinct (map fst (snd e))"
    and dist: "distinct (waiting w)"
    and wait: "\<forall>c \<in> set (waiting w). c < nextPromise w \<and> c \<notin> fst ` set (resolved w)"
    and res: "\<forall>c \<in> fst ` set (resolved w). c < nextPromise w"
    and tim: "\<forall>h \<in> fst ` set (webviewTimers w). h < nextTimerHandle w"
    unfolding webviewInv_def by blast+
  have a: "\<forall>e \<in> set ?pend. distinct (map fst (snd e))"
    using sealed by (auto simp: AList.delete_eq)
  have sub: "set (waitingSealed ?pend) \<subseteq> set (waitingSealed (pendingBatches w))"
    by (rule waitingSealed_delete_subset)
  have b: "distinct (waitingIn (currentBatchCallbacks w) @ waitingSealed ?pend)"
    using dist sub waitingSealed_delete_distinct [of "pendingBatches w" batchId]
    by (auto simp: waiting_def)
  have inb: "set (waitingIn batch) \<subseteq> set (waitingSealed (pendingBatches w))"
    using Some by (rule waitingSealed_lookup)
  have dj: "set (waitingIn batch) \<inter> set (waitingSealed ?pend) = {}"
    using dist Some by (intro waitingSealed_delete_disjoint) (auto simp: waiting_def)
  have dj2: "set (waitingIn batch) \<inter> set (waitingIn (currentBatchCallbacks w)) = {}"
    using dist inb by (auto simp: waiting_def)
  have callers: "fst ` set (resolved w @ timeoutCalls batch)
      = fst ` set (resolved w) \<union> set (waitingIn batch)"
    by (simp add: image_Un timeoutCalls_callers)
  have c: "\<forall>c \<in> set (waitingIn (currentBatchCallbacks w) @ waitingSealed ?pend).
      c < nextPromise w \<and> c \<notin> fst ` set (resolved w @ timeoutCalls batch)"
    using wait sub dj dj2 unfolding callers by (auto simp: waiting_def)
  have d: "\<forall>c \<in> fst ` set (resolved w @ timeoutCalls batch). c < nextPromise w"
    using res wait inb unfolding callers by (auto simp: waiting_def)
  show ?thesis
    unfolding webviewInv_def waiting_def
    using keys a b c d tim by (simp add: batchTimeoutFired_closed Some)
qed

lemma webviewInv_reply:
  assumes inv: "webviewInv w"
  shows "webviewInv (handleBatchFileExistsResult now batchId results w)"
proof (cases "map_of (pendingBatches w) batchId")
  case None
  then show ?thesis using inv by (simp add: handleBatchFileExistsResult_closed)
next
  case (Some batch)
  let ?pend = "AList.delete batchId (pendingBatches w)"
  from inv have keys: "distinct (map fst (currentBatchCallbacks w))"
    and sealed: "\<forall>e \<in> set (pendingBatches w). distinct (map fst (snd e))"
    and dist: "distinct (waiting w)"
    and wait: "\<forall>c \<in> set (waiting w). c < nextPromise w \<and> c \<notin> fst ` set (resolved w)"
    and res: "\<forall>c \<in> fst ` set (resolved w). c < nextPromise w"
    and tim: "\<forall>h \<in> fst ` set (webviewTimers w). h < nextTimerHandle w"
    unfolding webviewInv_def by blast+
  have a: "\<forall>e \<in> set ?pend. distinct (map fst (snd e))"
    using sealed by (auto simp: AList.delete_eq)
  have sub: "set (waitingSealed ?pend) \<subseteq> set (waitingSealed (pendingBatches w))"
    by (rule waitingSealed_delete_subset)
  have b: "distinct (waitingIn (currentBatchCallbacks w) @ waitingSealed ?pend)"
    using dist sub waitingSealed_delete_distinct [of "pendingBatches w" batchId]
    by (auto simp: waiting_def)
  have inb: "set (waitingIn batch) \<subseteq> set (waitingSealed (pendingBatches w))"
    using Some by (rule waitingSealed_lookup)
  have dj: "set (waitingIn batch) \<inter> set (waitingSealed ?pend) = {}"
    using dist Some by (intro waitingSealed_delete_disjoint) (auto simp: waiting_def)
  have dj2: "set (waitingIn batch) \<inter> set (waitingIn (currentBatchCallbacks w)) = {}"
    using dist inb by (auto simp: waiting_def)
  have c: "\<forall>c \<in> set (waitingIn (currentBatchCallbacks w) @ waitingSealed ?pend).
      c < nextPromise w \<and> c \<notin> fst ` set (resolved w @ replyCalls batch results)"
    using wait sub dj dj2 by (auto simp: waiting_def dest: replyCalls_caller_in)
  have d: "\<forall>c \<in> fst ` set (resolved w @ replyCalls batch results). c < nextPromise w"
    using res wait inb by (auto simp: waiting_def dest: replyCalls_caller_in)
  show ?thesis
    unfolding webviewInv_def waiting_def
    using keys a b c d tim by (simp add: handleBatchFileExistsResult_closed Some)
qed

lemma webviewInv_timer:
  assumes inv: "webviewInv w"
  shows "webviewInv (webviewTimerFires now h w)"
proof (cases "map_of (webviewTimers w) h")
  case None
  then show ?thesis using inv by (simp add: webviewTimerFires_def)
next
  case (Some cb)
  have base: "webviewInv (w\<lparr>webviewTimers := AList.delete h (webviewTimers w)\<rparr>)"
    using inv unfolding webviewInv_def waiting_def by (auto simp: AList.delete_eq)
  show ?thesis
  proof (cases cb)
    case (DebounceTimer terminalId)
    have "webviewInv (w\<lparr>webviewTimers := AList.delete h (webviewTimers w),
                         batchDebounceTimer := None\<rparr>)"
      using base unfolding webviewInv_def waiting_def by simp
    then have "webviewInv (flushBatchFileChecks terminalId
        (w\<lparr>webviewTimers := AList.delete h (webviewTimers w), batchDebounceTimer := None\<rparr>))"
      by (rule webviewInv_flush)
    then show ?thesis by (simp add: webviewTimerFires_def Some DebounceTimer)
  next
    case (BatchTimeout batchId)
    have "webviewInv (batchTimeoutFired now batchId
        (w\<lparr>webviewTimers := AList.delete h (webviewTimers w)\<rparr>))"
      using base by (rule webviewInv_timeout)
    then show ?thesis by (simp add: webviewTimerFires_def Some BatchTimeout)
  qed
qed

lemma webviewInv_step: "webviewInv w \<Longrightarrow> webviewInv (webviewStep w event)"
  by (cases event) (simp_all add: webviewInv_check webviewInv_timer webviewInv_reply)

lemma webviewInv_run: "webviewInv w \<Longrightarrow> webviewInv (webviewRun events w)"
  unfolding webviewRun_def
  by (induction events arbitrary: w) (simp_all add: webviewInv_step)

lemma webviewInv_reachable: "webviewInv (webviewRun events initialWebview)"
  by (rule webviewInv_run [OF webviewInv_initial])

subsection \<open>A promise that no batch holds stays unresolved\<close>

lemma forgotten_check:
  assumes "forgotten w c"
  shows "forgotten (snd (checkFileExists now path terminalId w)) c"
proof (cases "fst (cache_get FILE_CACHE_TTL_MS now path (fileCache w))")
  case (Some v)
  show ?thesis
    using assms unfolding forgotten_def waiting_def
    by (auto simp: checkFileExists_hit [OF Some])
next
  case None
  show ?thesis
    using assms unfolding forgotten_def waiting_def
    by (auto simp: checkFileExists_miss [OF None] enqueue_waiting)
qed

lemma forgotten_flush:
  assumes "forgotten w c"
  shows "forgotten (flushBatchFileChecks terminalId w) c"
proof -
  have "set (waitingSealed (AList.update (currentBatchId w) (currentBatchCallbacks w)
          (pendingBatches w)))
        \<subseteq> set (waitingIn (currentBatchCallbacks w)) \<union> set (waitingSealed (pendingBatches w))"
    by (rule waitingSealed_update_subset)
  then show ?thesis
    using assms unfolding forgotten_def waiting_def
    by (auto simp: flushBatchFileChecks_closed waitingIn_Nil)
qed

lemma forgotten_timeout:
  assumes "forgotten w c"
  shows "forgotten (batchTimeoutFired now batchId w) c"
proof (cases "map_of (pendingBatches w) batchId")
  case None
  then show ?thesis using assms by (simp add: batchTimeoutFired_closed)
next
  case (Some batch)
  have sub: "set (waitingSealed (AList.delete batchId (pendingBatches w)))
      \<subseteq> set (waitingSealed (pendingBatches w))"
    by (rule waitingSealed_delete_subset)
  have inb: "set (waitingIn batch) \<subseteq> set (waitingSealed (pendingBatches w))"
    using Some by (rule waitingSealed_lookup)
  have "fst ` set (timeoutCalls batch) = set (waitingIn batch)"
    by (rule timeoutCalls_callers)
  then show ?thesis
    using assms sub inb unfolding forgotten_def waiting_def
    by (auto simp: batchTimeoutFired_closed Some image_Un)
qed

lemma forgotten_reply:
  assumes "forgotten w c"
  shows "forgotten (handleBatchFileExistsResult now batchId results w) c"
proof (cases "map_of (pendingBatches w) batchId")
  case None
  then show ?thesis using assms by (simp add: handleBatchFileExistsResult_closed)
next
  case (Some batch)
  have sub: "set (waitingSealed (AList.delete batchId (pendingBatches w)))
      \<subseteq> set (waitingSealed (pendingBatches w))"
    by (rule waitingSealed_delete_subset)
  have inb: "set (waitingIn batch) \<subseteq> set (waitingSealed (pendingBatches w))"
    using Some by (rule waitingSealed_lookup)
  show ?thesis
    using assms sub inb unfolding forgotten_def waiting_def
    by (auto simp: handleBatchFileExistsResult_closed Some image_Un dest: replyCalls_caller_in)
qed

lemma forgotten_timer:
  assumes "forgotten w c"
  shows "forgotten (webviewTimerFires now h w) c"
proof (cases "map_of (webviewTimers w) h")
  case None
  then show ?thesis using assms by (simp add: webviewTimerFires_def)
next
  case (Some cb)
  have base: "forgotten (w\<lparr>webviewTimers := AList.delete h (webviewTimers w)\<rparr>) c"
    using assms unfolding forgotten_def waiting_def by simp
  show ?thesis
  proof (cases cb)
    case (DebounceTimer terminalId)
    have "forgotten (w\<lparr>webviewTimers := AList.delete h (webviewTimers w),
                        batchDebounceTimer := None\<rparr>) c"
      using base unfolding forgotten_def waiting_def by simp
    then have "forgotten (flushBatchFileChecks terminalId
        (w\<lparr>webviewTimers := AList.delete h (webviewTimers w), batchDebounceTimer := None\<rparr>)) c"
      by (rule forgotten_flush)
    then show ?thesis by (simp add: webviewTimerFires_def Some DebounceTimer)
  next
    case (BatchTimeout batchId)
    have "forgotten (batchTimeoutFired now batchId
        (w\<lparr>webviewTimers := AList.delete h (webviewTimers w)\<rparr>)) c"
      using base by (rule forgotten_timeout)
    then show ?thesis by (simp add: webviewTimerFires_def Some BatchTimeout)
  qed
qed

lemma forgotten_step: "forgotten w c \<Longrightarrow> forgotten (webviewStep w event) c"
  by (cases event) (simp_all add: forgotten_check forgotten_timer forgotten_reply)

lemma forgotten_run: "forgotten w c \<Longrightarrow> forgotten (webviewRun events w) c"
  unfolding webviewRun_def
  by (induction events arbitrary: w) (simp_all add: forgotten_step)

lemma waitingSealed_lookup_distinct:
  "distinct (waitingSealed m) \<Longrightarrow> map_of m b = Some batch \<Longrightarrow> distinct (waitingIn batch)"
  by (induction m) (auto simp: waitingSealed_Cons split: if_splits)

lemma waitingIn_one_path:
  "distinct (waitingIn batch) \<Longrightarrow> map_of batch path = Some callbacks \<Longrightarrow> c \<in> set callbacks \<Longrightarrow>
   map_of batch q = Some others \<Longrightarrow> c \<in> set others \<Longrightarrow> q = path"
proof (induction batch)
  case Nil
  then show ?case by simp
next
  case (Cons e batch)
  obtain k v where e: "e = (k, v)" by (cases e)
  from Cons.prems(1) have d: "distinct (waitingIn batch)" "set v \<inter> set (waitingIn batch) = {}"
    by (auto simp: e waitingIn_Cons)
  show ?case
  proof (cases "k = path")
    case True
    with Cons.prems e have cv: "c \<in> set v" by simp
    show ?thesis
    proof (rule ccontr)
      assume ne: "q \<noteq> path"
      with Cons.prems(4) True e have "map_of batch q = Some others" by simp
      then have "set others \<subseteq> set (waitingIn batch)" by (rule waitingIn_lookup)
      with Cons.prems(5) cv d(2) show False by auto
    qed
  next
    case False
    with Cons.prems(2) e have look: "map_of batch path = Some callbacks" by simp
    then have inb: "set callbacks \<subseteq> set (waitingIn batch)" by (rule waitingIn_lookup)
    show ?thesis
    proof (cases "k = q")
      case True
      with Cons.prems(4) e have "others = v" by simp
      with Cons.prems(3,5) inb d(2) show ?thesis by auto
    next
      case qk: False
      with Cons.prems(4) e have "map_of batch q = Some others" by simp
      with d(1) look Cons.prems(3,5) show ?thesis by (intro Cons.IH)
    qed
  qed
qed

lemma replyCalls_skips:
  assumes d: "distinct (waitingIn batch)"
    and look: "map_of batch path = Some callbacks" and c: "c \<in> set callbacks"
    and omit: "path \<notin> fst ` set results"
  shows "c \<notin> fst ` set (replyCalls batch results)"
  using omit
proof (induction results)
  case Nil
  show ?case by (simp add: replyCalls_def)
next
  case (Cons r results)
  obtain q ex where r: "r = (q, ex)" by (cases r)
  from Cons.prems have ne: "q \<noteq> path" and rest: "path \<notin> fst ` set results"
    by (auto simp: r)
  have ih: "c \<notin> fst ` set (replyCalls batch results)"
    using rest by (rule Cons.IH)
  have step: "replyCalls batch (r # results)
      = (case map_of batch q of None \<Rightarrow> [] | Some others \<Rightarrow> map (\<lambda>cb. (cb, ex)) others)
        @ replyCalls batch results"
    by (simp add: replyCalls_def r)
  show ?case
  proof (cases "map_of batch q")
    case None
    then show ?thesis using ih step by simp
  next
    case (Some others)
    have "c \<notin> set others"
      using waitingIn_one_path [OF d look c Some] ne by blast
    then show ?thesis using ih step Some by (auto simp: image_Un image_image)
  qed
qed

lemma omitted_forgotten:
  assumes inv: "webviewInv w"
    and batch: "map_of (pendingBatches w) batchId = Some batch"
    and look: "map_of batch path = Some callbacks" and c: "c \<in> set callbacks"
    and omit: "path \<notin> fst ` set results"
  shows "forgotten (handleBatchFileExistsResult now batchId results w) c"
proof -
  from inv have dist: "distinct (waiting w)"
    and wait: "\<forall>c \<in> set (waiting w). c < nextPromise w \<and> c \<notin> fst ` set (resolved w)"
    unfolding webviewInv_def by blast+
  have cb: "c \<in> set (waitingIn batch)"
    using waitingIn_lookup [OF look] c by blast
  have inb: "set (waitingIn batch) \<subseteq> set (waitingSealed (pendingBatches w))"
    using batch by (rule waitingSealed_lookup)
  have cw: "c \<in> set (waiting w)" using cb inb by (auto simp: waiting_def)
  have ds: "distinct (waitingSealed (pendingBatches w))"
    using dist by (simp add: waiting_def)
  have db: "distinct (waitingIn batch)"
    using ds batch by (rule waitingSealed_lookup_distinct)
  have dj: "set (waitingIn batch) \<inter> set (waitingSealed (AList.delete batchId (pendingBatches w))) = {}"
    using ds batch by (rule waitingSealed_delete_disjoint)
  have dj2: "set (waitingIn batch) \<inter> set (waitingIn (currentBatchCallbacks w)) = {}"
    using dist inb by (auto simp: waiting_def)
  have skip: "c \<notin> fst ` set (replyCalls batch results)"
    using db look c omit by (rule replyCalls_skips)
  show ?thesis
    unfolding forgotten_def waiting_def
    using wait cw cb dj dj2 skip
    by (auto simp: handleBatchFileExistsResult_closed batch image_Un)
qed


subsection \<open>Evaluating the coordinator on concrete events\<close>

lemmas webview_eval =
  webviewRun_def initialWebview_def checkFileExists_def cache_get_def cache_set_def
  webviewSetTimeout_def webviewClearTimeout_def webviewTimerFires_def
  flushBatchFileChecks_def handleBatchFileExistsResult_def batchTimeoutFired_def
  callAll_def promiseValue_def FILE_CACHE_MAX_SIZE_def FILE_CACHE_TTL_MS_def Let_def


subsection \<open>Two requests for one path in a debounce window\<close>











subsection \<open>The timeout of a sealed batch\<close>
























subsection \<open>A reply that omits a path\<close>

text \<open>
  C10. In every state the coordinator can reach, when the reply for a sealed batch names
  no result for one of the batch's paths, the reply removes the batch all the same; the
  callback of the batch's timeout then finds no batch and changes nothing; and a promise
  that waited on the omitted path is resolved by no later event, whatever events follow:
  it stays pending forever.
\<close>

theorem omitted_path_stays_pending:
  assumes batch: "map_of (pendingBatches (webviewRun events initialWebview)) batchId = Some batch"
    and look: "map_of batch path = Some callbacks"
    and c: "c \<in> set callbacks"
    and omit: "path \<notin> fst ` set results"
  shows "map_of (pendingBatches
            (handleBatchFileExistsResult now batchId results (webviewRun events initialWebview)))
            batchId = None
       \<and> batchTimeoutFired now' batchId
            (handleBatchFileExistsResult now batchId results (webviewRun events initialWebview))
          = handleBatchFileExistsResult now batchId results (webviewRun events initialWebview)
       \<and> (\<forall>later. promiseValue
            (webviewRun later
              (handleBatchFileExistsResult now batchId results (webviewRun events initialWebview)))
            c = None)"
proof -
  let ?w = "webviewRun events initialWebview"
  let ?w' = "handleBatchFileExistsResult now batchId results ?w"
  have inv: "webviewInv ?w" by (rule webviewInv_reachable)
  have gone: "map_of (pendingBatches ?w') batchId = None"
    by (simp add: handleBatchFileExistsResult_closed batch delete_conv')
  then have noop: "batchTimeoutFired now' batchId ?w' = ?w'"
    by (simp add: batchTimeoutFired_closed)
  have f: "forgotten ?w' c"
    using inv batch look c omit by (rule omitted_forgotten)
  have "promiseValue (webviewRun later ?w') c = None" for later
  proof -
    have "forgotten (webviewRun later ?w') c" using f by (rule forgotten_run)
    then show ?thesis
      by (simp add: forgotten_def promiseValue_def map_of_eq_None_iff)
  qed
  with gone noop show ?thesis by blast
qed

theorem omitted_path_stays_pending_witness:
  "promiseValue
     (webviewRun [TimerFires 2100 3]
       (handleBatchFileExistsResult 70 0 [(''/b.txt'', True)]
         (webviewRun [CheckFileExists 0 ''/a.txt'' 7, CheckFileExists 1 ''/b.txt'' 7,
                      TimerFires 60 2] initialWebview))) 0 = None
   \<and> promiseValue
     (webviewRun [TimerFires 2100 3]
       (handleBatchFileExistsResult 70 0 [(''/b.txt'', True)]
         (webviewRun [CheckFileExists 0 ''/a.txt'' 7, CheckFileExists 1 ''/b.txt'' 7,
                      TimerFires 60 2] initialWebview))) 1 = Some True"
proof -
  let ?events = "[CheckFileExists 0 ''/a.txt'' 7, CheckFileExists 1 ''/b.txt'' 7, TimerFires 60 2]"
  have batch: "map_of (pendingBatches (webviewRun ?events initialWebview)) 0
      = Some [(''/a.txt'', [0]), (''/b.txt'', [1])]"
    by (simp add: webview_eval)
  have look: "map_of [(''/a.txt'', [0::nat]), (''/b.txt'', [1])] ''/a.txt'' = Some [0]"
    by simp
  have c: "(0::nat) \<in> set [0]" by simp
  have omit: "''/a.txt'' \<notin> fst ` set [(''/b.txt'', True)]" by simp
  have other: "promiseValue
     (webviewRun [TimerFires 2100 3]
       (handleBatchFileExistsResult 70 0 [(''/b.txt'', True)]
         (webviewRun ?events initialWebview))) 1 = Some True"
    by (simp add: webview_eval)
  show ?thesis
    using omitted_path_stays_pending [OF batch look c omit, of 70 2100] other by blast
qed


section \<open>Properties of the terminal manager\<close>

subsection \<open>What each primitive changes\<close>

lemma emit_fields [simp]:
  "terminals (emit e s) = terminals s" "usedIndices (emit e s) = usedIndices s"
  "ptyInstances (emit e s) = ptyInstances s" "timers (emit e s) = timers s"
  "nextTimer (emit e s) = nextTimer s" "nextTerminalId (emit e s) = nextTerminalId s"
  "effects (emit e s) = effects s @ [e]"
  by (simp_all add: emit_def)

lemma updateInstance_fields [simp]:
  "terminals (updateInstance i f s) = AList.map_entry i f (terminals s)"
  "usedIndices (updateInstance i f s) = usedIndices s"
  "ptyInstances (updateInstance i f s) = ptyInstances s"
  "timers (updateInstance i f s) = timers s"
  "nextTimer (updateInstance i f s) = nextTimer s"
  "nextTerminalId (updateInstance i f s) = nextTerminalId s"
  "effects (updateInstance i f s) = effects s"
  by (simp_all add: updateInstance_def)

lemma setTimeout_fields [simp]:
  "fst (setTimeout cb s) = nextTimer s"
  "terminals (snd (setTimeout cb s)) = terminals s"
  "usedIndices (snd (setTimeout cb s)) = usedIndices s"
  "ptyInstances (snd (setTimeout cb s)) = ptyInstances s"
  "timers (snd (setTimeout cb s)) = timers s @ [(nextTimer s, cb)]"
  "nextTimer (snd (setTimeout cb s)) = Suc (nextTimer s)"
  "nextTerminalId (snd (setTimeout cb s)) = nextTerminalId s"
  "effects (snd (setTimeout cb s)) = effects s @ [TimerSet (nextTimer s) cb]"
  by (simp_all add: setTimeout_def)

lemma clearTimeout_fields [simp]:
  "terminals (clearTimeout h s) = terminals s"
  "usedIndices (clearTimeout h s) = usedIndices s"
  "ptyInstances (clearTimeout h s) = ptyInstances s"
  "timers (clearTimeout h s) = AList.delete h (timers s)"
  "nextTimer (clearTimeout h s) = nextTimer s"
  "nextTerminalId (clearTimeout h s) = nextTerminalId s"
  "effects (clearTimeout h s) = effects s @ [TimerCleared h]"
  by (simp_all add: clearTimeout_def)

lemma ptyWrite_fields [simp]:
  "terminals (ptyWrite i d s) = terminals s" "usedIndices (ptyWrite i d s) = usedIndices s"
  "ptyInstances (ptyWrite i d s) = ptyInstances s" "timers (ptyWrite i d s) = timers s"
  "nextTimer (ptyWrite i d s) = nextTimer s"
  "nextTerminalId (ptyWrite i d s) = nextTerminalId s"
  "effects (ptyWrite i d s)
     = effects s @ (if i \<in> set (ptyInstances s) then [ProcessWrite i d] else [])"
  by (simp_all add: ptyWrite_def)

lemma ptyResize_fields [simp]:
  "terminals (ptyResize i c r s) = terminals s"
  "usedIndices (ptyResize i c r s) = usedIndices s"
  "ptyInstances (ptyResize i c r s) = ptyInstances s" "timers (ptyResize i c r s) = timers s"
  "nextTimer (ptyResize i c r s) = nextTimer s"
  "nextTerminalId (ptyResize i c r s) = nextTerminalId s"
  "effects (ptyResize i c r s)
     = effects s @ (if i \<in> set (ptyInstances s) then [ProcessResize i c r] else [])"
  by (simp_all add: ptyResize_def)

lemma ptyKill_fields [simp]:
  "terminals (ptyKill i s) = terminals s" "usedIndices (ptyKill i s) = usedIndices s"
  "ptyInstances (ptyKill i s) = removeAll i (ptyInstances s)" "timers (ptyKill i s) = timers s"
  "nextTimer (ptyKill i s) = nextTimer s" "nextTerminalId (ptyKill i s) = nextTerminalId s"
  "effects (ptyKill i s)
     = effects s @ (if i \<in> set (ptyInstances s) then [ProcessKill i] else [])"
  by (simp_all add: ptyKill_def)

lemma releaseIndex_fields [simp]:
  "terminals (releaseIndex x s) = terminals s"
  "usedIndices (releaseIndex x s)
     = (case x of None \<Rightarrow> usedIndices s | Some i \<Rightarrow> removeAll i (usedIndices s))"
  "ptyInstances (releaseIndex x s) = ptyInstances s" "timers (releaseIndex x s) = timers s"
  "nextTimer (releaseIndex x s) = nextTimer s"
  "nextTerminalId (releaseIndex x s) = nextTerminalId s"
  "effects (releaseIndex x s) = effects s"
  by (simp_all add: releaseIndex_def split: option.splits)

lemma reserveIndex_fields [simp]:
  "terminals (reserveIndex x s) = terminals s"
  "usedIndices (reserveIndex x s)
     = (case x of None \<Rightarrow> usedIndices s
        | Some i \<Rightarrow> if i \<in> set (usedIndices s) then usedIndices s else usedIndices s @ [i])"
  "ptyInstances (reserveIndex x s) = ptyInstances s" "timers (reserveIndex x s) = timers s"
  "nextTimer (reserveIndex x s) = nextTimer s"
  "nextTerminalId (reserveIndex x s) = nextTerminalId s"
  "effects (reserveIndex x s) = effects s"
  by (simp_all add: reserveIndex_def split: option.splits)

lemma postToTerminal_fields [simp]:
  "terminals (postToTerminal i m s) = terminals s"
  "usedIndices (postToTerminal i m s) = usedIndices s"
  "ptyInstances (postToTerminal i m s) = ptyInstances s"
  "timers (postToTerminal i m s) = timers s"
  "nextTimer (postToTerminal i m s) = nextTimer s"
  "nextTerminalId (postToTerminal i m s) = nextTerminalId s"
  by (simp_all add: postToTerminal_def split: option.splits)


lemma getNextIndex_fields [simp]:
  "fst (getNextIndex s) = nextFree 1 (usedIndices s)"
  "terminals (snd (getNextIndex s)) = terminals s"
  "ptyInstances (snd (getNextIndex s)) = ptyInstances s"
  "timers (snd (getNextIndex s)) = timers s"
  "nextTimer (snd (getNextIndex s)) = nextTimer s"
  "nextTerminalId (snd (getNextIndex s)) = nextTerminalId s"
  "effects (snd (getNextIndex s)) = effects s"
  by (simp_all add: getNextIndex_def Let_def)

lemma spawnPty_fields [simp]:
  "fst (spawnPty host i cfg s) = spawnError host"
  "terminals (snd (spawnPty host i cfg s)) = terminals s"
  "usedIndices (snd (spawnPty host i cfg s)) = usedIndices s"
  "timers (snd (spawnPty host i cfg s)) = timers s"
  "nextTimer (snd (spawnPty host i cfg s)) = nextTimer s"
  "nextTerminalId (snd (spawnPty host i cfg s)) = nextTerminalId s"
  "ptyInstances (snd (spawnPty host i cfg s))
     = (if spawnError host = None \<and> i \<notin> set (ptyInstances s)
        then ptyInstances s @ [i] else ptyInstances s)"
  by (simp_all add: spawnPty_def ptySpawn_def Let_def split: option.splits)

lemma spawnPty_effects:
  "effects (snd (spawnPty host i cfg s))
     = effects s @ (case spawnError host of
                      None \<Rightarrow> [ProcessSpawn i (resolveConfig (hostEnv host) cfg)]
                    | Some msg \<Rightarrow> [ShowErrorMessage (''Failed to start terminal: '' @ msg)])"
  by (simp add: spawnPty_def ptySpawn_def Let_def split: option.splits)

lemma armReadyTimeout_fields [simp]:
  "terminals (armReadyTimeout i s)
     = AList.map_entry i (\<lambda>t. t\<lparr>readyTimeout := Some (nextTimer s)\<rparr>) (terminals s)"
  "usedIndices (armReadyTimeout i s) = usedIndices s"
  "ptyInstances (armReadyTimeout i s) = ptyInstances s"
  "timers (armReadyTimeout i s) = timers s @ [(nextTimer s, ReadyTimeout i)]"
  "nextTimer (armReadyTimeout i s) = Suc (nextTimer s)"
  "nextTerminalId (armReadyTimeout i s) = nextTerminalId s"
  "effects (armReadyTimeout i s) = effects s @ [TimerSet (nextTimer s) (ReadyTimeout i)]"
  by (simp_all add: armReadyTimeout_def setTimeout_def split: prod.splits)

subsection \<open>Association lists\<close>

lemma map_of_map_entry_same:
  "map_of (AList.map_entry k f al) k = map_option f (map_of al k)"
  by (induction al) auto

lemma map_of_map_entry_other:
  "k' \<noteq> k \<Longrightarrow> map_of (AList.map_entry k f al) k' = map_of al k'"
  by (induction al) auto

lemma map_entry_keys: "map fst (AList.map_entry k f al) = map fst al"
  by (induction al) auto

lemma map_entry_absent: "map_of al k = None \<Longrightarrow> AList.map_entry k f al = al"
  by (induction al) (auto split: if_splits)

lemma map_entry_compose:
  "AList.map_entry k f (AList.map_entry k g al) = AList.map_entry k (f \<circ> g) al"
  by (induction al) auto

lemma map_entry_set:
  "(k', v) \<in> set (AList.map_entry k f al) \<Longrightarrow>
   (k', v) \<in> set al \<or> (k' = k \<and> (\<exists>v0. map_of al k = Some v0 \<and> v = f v0))"
  by (induction al) (auto split: if_splits)

lemma alist_delete_set: "(k', v) \<in> set (AList.delete k al) \<longleftrightarrow> (k', v) \<in> set al \<and> k' \<noteq> k"
  by (auto simp: AList.delete_eq)


subsection \<open>Teardown\<close>

lemma destroyTerminal_absent:
  "map_of (terminals s) i = None \<Longrightarrow> destroyTerminal host i s = s"
  by (simp add: destroyTerminal_def)

lemma destroyTerminal_fields [simp]:
  "terminals (destroyTerminal host i s) = AList.delete i (terminals s)"
  "nextTimer (destroyTerminal host i s) = nextTimer s"
  "nextTerminalId (destroyTerminal host i s) = nextTerminalId s"
  by (auto simp: destroyTerminal_def Let_def map_of_eq_None_iff split: option.splits)

lemma destroyTerminal_usedIndices:
  "usedIndices (destroyTerminal host i s)
     = (case map_of (terminals s) i of
          None \<Rightarrow> usedIndices s
        | Some inst \<Rightarrow>
            (case index inst of
               None \<Rightarrow> usedIndices s
             | Some n \<Rightarrow> removeAll n (usedIndices s)))"
  by (simp add: destroyTerminal_def Let_def split: option.splits)

lemma destroyTerminal_ptyInstances:
  "ptyInstances (destroyTerminal host i s)
     = (if map_of (terminals s) i = None then ptyInstances s
        else removeAll i (ptyInstances s))"
  by (simp add: destroyTerminal_def Let_def split: option.splits)

lemma destroyTerminal_timers:
  "timers (destroyTerminal host i s)
     = (case map_of (terminals s) i of
          None \<Rightarrow> timers s
        | Some inst \<Rightarrow>
            (case readyTimeout inst of
               None \<Rightarrow> timers s
             | Some h \<Rightarrow> AList.delete h (timers s)))"
  by (simp add: destroyTerminal_def Let_def split: option.splits)

lemma destroyTerminal_unregisters: "map_of (terminals (destroyTerminal host i s)) i = None"
  by (simp add: delete_conv')

text \<open>
  C4. Whatever the state and whatever the host reports at either call, a second
  \<^verbatim>\<open>destroyTerminal\<close> for the same identifier right after the first returns the state of
  the first: the identifier is not registered after the first call, so the second
  changes nothing. The state holds the used indices, the processes of the PTY service
  and the record of every call made (a kill of a process among them), so no index is
  released and no process is killed a second time, and the model's handler has no
  exception to raise.
\<close>

theorem destroyTerminal_twice:
  "map_of (terminals (destroyTerminal host1 i s)) i = None
   \<and> destroyTerminal host2 i (destroyTerminal host1 i s) = destroyTerminal host1 i s
   \<and> effects (destroyTerminal host2 i (destroyTerminal host1 i s))
       = effects (destroyTerminal host1 i s)
   \<and> usedIndices (destroyTerminal host2 i (destroyTerminal host1 i s))
       = usedIndices (destroyTerminal host1 i s)"
proof -
  have gone: "map_of (terminals (destroyTerminal host1 i s)) i = None"
    by (rule destroyTerminal_unregisters)
  then have "destroyTerminal host2 i (destroyTerminal host1 i s) = destroyTerminal host1 i s"
    by (rule destroyTerminal_absent)
  with gone show ?thesis by simp
qed


subsection \<open>What each handler changes\<close>

lemma foldl_post_fields [simp]:
  "terminals (foldl (\<lambda>s' d. postToTerminal i (m d) s') s ds) = terminals s"
  "usedIndices (foldl (\<lambda>s' d. postToTerminal i (m d) s') s ds) = usedIndices s"
  "ptyInstances (foldl (\<lambda>s' d. postToTerminal i (m d) s') s ds) = ptyInstances s"
  "timers (foldl (\<lambda>s' d. postToTerminal i (m d) s') s ds) = timers s"
  "nextTimer (foldl (\<lambda>s' d. postToTerminal i (m d) s') s ds) = nextTimer s"
  "nextTerminalId (foldl (\<lambda>s' d. postToTerminal i (m d) s') s ds) = nextTerminalId s"
  by (induction ds arbitrary: s) simp_all

lemma foldl_broadcast_fields [simp]:
  "terminals (foldl (\<lambda>s' (i, t). if ready t then postToTerminal i (m i) s' else s') s ts)
     = terminals s"
  "usedIndices (foldl (\<lambda>s' (i, t). if ready t then postToTerminal i (m i) s' else s') s ts)
     = usedIndices s"
  "ptyInstances (foldl (\<lambda>s' (i, t). if ready t then postToTerminal i (m i) s' else s') s ts)
     = ptyInstances s"
  "timers (foldl (\<lambda>s' (i, t). if ready t then postToTerminal i (m i) s' else s') s ts)
     = timers s"
  "nextTimer (foldl (\<lambda>s' (i, t). if ready t then postToTerminal i (m i) s' else s') s ts)
     = nextTimer s"
  "nextTerminalId (foldl (\<lambda>s' (i, t). if ready t then postToTerminal i (m i) s' else s') s ts)
     = nextTerminalId s"
  by (induction ts arbitrary: s) (simp_all add: case_prod_beta)

lemma broadcast_fields [simp]:
  "terminals (broadcastSettingsUpdate host s) = terminals s"
  "usedIndices (broadcastSettingsUpdate host s) = usedIndices s"
  "ptyInstances (broadcastSettingsUpdate host s) = ptyInstances s"
  "timers (broadcastSettingsUpdate host s) = timers s"
  "nextTimer (broadcastSettingsUpdate host s) = nextTimer s"
  "nextTerminalId (broadcastSettingsUpdate host s) = nextTerminalId s"
  "terminals (broadcastThemeUpdate host s) = terminals s"
  "usedIndices (broadcastThemeUpdate host s) = usedIndices s"
  "ptyInstances (broadcastThemeUpdate host s) = ptyInstances s"
  "timers (broadcastThemeUpdate host s) = timers s"
  "nextTimer (broadcastThemeUpdate host s) = nextTimer s"
  "nextTerminalId (broadcastThemeUpdate host s) = nextTerminalId s"
  by (simp_all add: broadcastSettingsUpdate_def broadcastThemeUpdate_def)

lemma batchCheckResolved_fields [simp]:
  "terminals (batchCheckResolved i b r s) = terminals s"
  "usedIndices (batchCheckResolved i b r s) = usedIndices s"
  "ptyInstances (batchCheckResolved i b r s) = ptyInstances s"
  "timers (batchCheckResolved i b r s) = timers s"
  "nextTimer (batchCheckResolved i b r s) = nextTimer s"
  "nextTerminalId (batchCheckResolved i b r s) = nextTerminalId s"
  by (simp_all add: batchCheckResolved_def)

lemma map_entry_cong_at:
  "map_of al k = Some v \<Longrightarrow> f v = g v \<Longrightarrow> AList.map_entry k f al = AList.map_entry k g al"
  by (induction al) (auto split: if_splits)

text \<open>The ready handshake.\<close>

lemma handleTerminalReady_terminals:
  "terminals (handleTerminalReady host i c r s) = AList.map_entry i madeReady (terminals s)"
proof (cases "map_of (terminals s) i")
  case None
  then show ?thesis by (simp add: handleTerminalReady_def map_entry_absent)
next
  case (Some inst)
  show ?thesis
  proof (cases "readyTimeout inst")
    case None
    have "AList.map_entry i ((\<lambda>t. t\<lparr>dataQueue := []\<rparr>) \<circ> (\<lambda>t. t\<lparr>ready := True\<rparr>)) (terminals s)
        = AList.map_entry i madeReady (terminals s)"
      using Some by (rule map_entry_cong_at) (simp add: madeReady_def None)
    then show ?thesis
      by (simp add: handleTerminalReady_def Some None Let_def map_entry_compose)
  next
    case (Some h)
    have "(\<lambda>t. t\<lparr>dataQueue := []\<rparr>) \<circ> ((\<lambda>t. t\<lparr>ready := True\<rparr>) \<circ> (\<lambda>t. t\<lparr>readyTimeout := None\<rparr>))
        = madeReady"
      by (rule ext) (simp add: madeReady_def)
    then show ?thesis
      by (simp add: handleTerminalReady_def \<open>map_of (terminals s) i = Some inst\<close> Some
          Let_def map_entry_compose)
  qed
qed

lemma handleTerminalReady_fields [simp]:
  "usedIndices (handleTerminalReady host i c r s) = usedIndices s"
  "ptyInstances (handleTerminalReady host i c r s) = ptyInstances s"
  "nextTimer (handleTerminalReady host i c r s) = nextTimer s"
  "nextTerminalId (handleTerminalReady host i c r s) = nextTerminalId s"
  by (simp_all add: handleTerminalReady_def Let_def split: option.splits)

lemma handleTerminalReady_timers:
  "timers (handleTerminalReady host i c r s)
     = (case map_of (terminals s) i of
          None \<Rightarrow> timers s
        | Some inst \<Rightarrow>
            (case readyTimeout inst of
               None \<Rightarrow> timers s
             | Some h \<Rightarrow> AList.delete h (timers s)))"
  by (simp add: handleTerminalReady_def Let_def split: option.splits)

text \<open>PTY output: the state after the handler, whether \<^verbatim>\<open>parseOSC7\<close> raised or not.\<close>

lemma afterPtyData_fields [simp]:
  "usedIndices (afterPtyData host i d s) = usedIndices s"
  "ptyInstances (afterPtyData host i d s) = ptyInstances s"
  "timers (afterPtyData host i d s) = timers s"
  "nextTimer (afterPtyData host i d s) = nextTimer s"
  "nextTerminalId (afterPtyData host i d s) = nextTerminalId s"
  by (simp_all add: afterPtyData_def handlePtyData_def handleOSC9Notification_def Let_def
      split: option.splits sum.splits)

lemma map_entry_id: "AList.map_entry k (\<lambda>t. t) al = al"
  by (induction al) auto

lemma map_entry_ext: "(\<And>v. f v = g v) \<Longrightarrow> AList.map_entry k f al = AList.map_entry k g al"
  by (induction al) auto

lemma afterPtyData_terminals:
  "terminals (afterPtyData host i d s)
     = (case map_of (terminals s) i of
          None \<Rightarrow> terminals s
        | Some inst \<Rightarrow>
            (case parseOSC7 d of
               Inl e \<Rightarrow> terminals s
             | Inr dir \<Rightarrow>
                 AList.map_entry i
                   (buffered dir
                      (\<not> ready inst \<and> length (dataQueue inst) < MAX_DATA_QUEUE_SIZE) d)
                   (terminals s)))"
proof (cases "map_of (terminals s) i")
  case None
  then show ?thesis by (simp add: afterPtyData_def handlePtyData_def)
next
  case (Some inst)
  show ?thesis
  proof (cases "parseOSC7 d")
    case (Inl e)
    then show ?thesis by (simp add: afterPtyData_def handlePtyData_def Some)
  next
    case (Inr dir)
    let ?push = "\<not> ready inst \<and> length (dataQueue inst) < MAX_DATA_QUEUE_SIZE"
    let ?cwd = "\<lambda>t. (case dir of None \<Rightarrow> t
                        | Some c \<Rightarrow> if c = [] then t else t\<lparr>currentCwd := Some c\<rparr>)"
    let ?s1 = "(case dir of
                  None \<Rightarrow> s
                | Some c \<Rightarrow>
                    if c = [] then s
                    else
                      let s' = updateInstance i (\<lambda>t. t\<lparr>currentCwd := Some c\<rparr>) s
                      in if ready inst then postToTerminal i (update_cwd i c) s' else s')"
    let ?s2 = "(case parseOSC9 d of
                  None \<Rightarrow> ?s1
                | Some notification \<Rightarrow>
                    if notification = [] then ?s1
                    else handleOSC9Notification host notification ?s1)"
    have t1: "terminals ?s1 = AList.map_entry i ?cwd (terminals s)"
      by (simp add: Let_def map_entry_id split: option.splits)
    have "terminals ?s2 = terminals ?s1"
      by (simp add: handleOSC9Notification_def split: option.splits)
    with t1 have t2: "terminals ?s2 = AList.map_entry i ?cwd (terminals s)" by simp
    have after: "afterPtyData host i d s
        = (if \<not> ready inst then
             (if length (dataQueue inst) < MAX_DATA_QUEUE_SIZE
              then updateInstance i (\<lambda>t. t\<lparr>dataQueue := dataQueue t @ [d]\<rparr>) ?s2
              else ?s2)
           else postToTerminal i (pty_data i d) ?s2)"
      by (simp add: afterPtyData_def handlePtyData_def Some Inr Let_def)
    define push where "push = (\<not> ready inst \<and> length (dataQueue inst) < MAX_DATA_QUEUE_SIZE)"
    have "terminals (afterPtyData host i d s)
        = (if push then AList.map_entry i (\<lambda>t. t\<lparr>dataQueue := dataQueue t @ [d]\<rparr>)
                            (AList.map_entry i ?cwd (terminals s))
           else AList.map_entry i ?cwd (terminals s))"
      unfolding after push_def using t2 by simp
    also have "\<dots> = AList.map_entry i (buffered dir push d) (terminals s)"
    proof (cases push)
      case True
      have "AList.map_entry i ((\<lambda>t. t\<lparr>dataQueue := dataQueue t @ [d]\<rparr>) \<circ> ?cwd) (terminals s)
          = AList.map_entry i (buffered dir True d) (terminals s)"
        by (rule map_entry_ext) (simp add: buffered_def Let_def split: option.splits)
      with True show ?thesis by (simp add: map_entry_compose)
    next
      case False
      have "AList.map_entry i ?cwd (terminals s)
          = AList.map_entry i (buffered dir False d) (terminals s)"
        by (rule map_entry_ext) (simp add: buffered_def Let_def split: option.splits)
      with False show ?thesis by simp
    qed
    finally have "terminals (afterPtyData host i d s)
        = AList.map_entry i (buffered dir push d) (terminals s)" .
    then show ?thesis by (simp add: Some Inr push_def)
  qed
qed


subsection \<open>Indices and creation\<close>

declare nextFree.simps [simp del]

lemma nextFree_unused: "nextFree n used \<notin> set used"
  by (induction n used rule: nextFree.induct) (subst nextFree.simps, simp)



lemma getNextIndex_usedIndices [simp]:
  "usedIndices (snd (getNextIndex s)) = usedIndices s @ [nextFree 1 (usedIndices s)]"
  by (simp add: getNextIndex_def Let_def nextFree_unused)

lemma update_then_arm:
  "AList.map_entry k f (AList.update k v al) = AList.update k (f v) al"
  by (induction al) auto

lemma createPanelTerminal_fields:
  "fst (createPanelTerminal host cfg s)
     = (case spawnError host of Some msg \<Rightarrow> None | None \<Rightarrow> Some (nextTerminalId s))"
  "terminals (snd (createPanelTerminal host cfg s))
     = registered host s
         (newInstance Panel (case cfg of Some c \<Rightarrow> c | None \<Rightarrow> emptyConfig)
            (terminalTitle (nextFree 1 (usedIndices s))) (Some (nextFree 1 (usedIndices s))))"
  "usedIndices (snd (createPanelTerminal host cfg s))
     = (case spawnError host of
          Some msg \<Rightarrow> usedIndices s
        | None \<Rightarrow> usedIndices s @ [nextFree 1 (usedIndices s)])"
  "ptyInstances (snd (createPanelTerminal host cfg s))
     = (if spawnError host = None \<and> nextTerminalId s \<notin> set (ptyInstances s)
        then ptyInstances s @ [nextTerminalId s] else ptyInstances s)"
  "timers (snd (createPanelTerminal host cfg s))
     = (case spawnError host of
          Some msg \<Rightarrow> timers s
        | None \<Rightarrow> timers s @ [(nextTimer s, ReadyTimeout (nextTerminalId s))])"
  "nextTimer (snd (createPanelTerminal host cfg s))
     = (case spawnError host of Some msg \<Rightarrow> nextTimer s | None \<Rightarrow> Suc (nextTimer s))"
  "nextTerminalId (snd (createPanelTerminal host cfg s)) = Suc (nextTerminalId s)"
  by (simp_all add: createPanelTerminal_def Let_def split_beta registered_def newInstance_def
      delete_update_same update_then_arm nextFree_unused split: option.splits)

lemma createEditorTerminal_fields:
  "fst (createEditorTerminal host cfg s)
     = (case spawnError host of Some msg \<Rightarrow> None | None \<Rightarrow> Some (nextTerminalId s))"
  "terminals (snd (createEditorTerminal host cfg s))
     = registered host s
         (newInstance Editor (case cfg of Some c \<Rightarrow> c | None \<Rightarrow> emptyConfig)
            (terminalTitle (nextFree 1 (usedIndices s))) (Some (nextFree 1 (usedIndices s))))"
  "usedIndices (snd (createEditorTerminal host cfg s))
     = (case spawnError host of
          Some msg \<Rightarrow> usedIndices s
        | None \<Rightarrow> usedIndices s @ [nextFree 1 (usedIndices s)])"
  "ptyInstances (snd (createEditorTerminal host cfg s))
     = (if spawnError host = None \<and> nextTerminalId s \<notin> set (ptyInstances s)
        then ptyInstances s @ [nextTerminalId s] else ptyInstances s)"
  "timers (snd (createEditorTerminal host cfg s))
     = (case spawnError host of
          Some msg \<Rightarrow> timers s
        | None \<Rightarrow> timers s @ [(nextTimer s, ReadyTimeout (nextTerminalId s))])"
  "nextTimer (snd (createEditorTerminal host cfg s))
     = (case spawnError host of Some msg \<Rightarrow> nextTimer s | None \<Rightarrow> Suc (nextTimer s))"
  "nextTerminalId (snd (createEditorTerminal host cfg s)) = Suc (nextTerminalId s)"
  by (simp_all add: createEditorTerminal_def Let_def split_beta registered_def newInstance_def
      delete_update_same update_then_arm nextFree_unused split: option.splits)

lemma createPanelTerminalWithTitle_fields:
  "fst (createPanelTerminalWithTitle host t a s)
     = (case spawnError host of Some msg \<Rightarrow> None | None \<Rightarrow> Some (nextTerminalId s))"
  "terminals (snd (createPanelTerminalWithTitle host t a s))
     = registered host s
         (newInstance Panel (emptyConfig\<lparr>cwd := workspaceCwd host\<rparr>) t (titleIndex t))"
  "ptyInstances (snd (createPanelTerminalWithTitle host t a s))
     = (if spawnError host = None \<and> nextTerminalId s \<notin> set (ptyInstances s)
        then ptyInstances s @ [nextTerminalId s] else ptyInstances s)"
  "timers (snd (createPanelTerminalWithTitle host t a s))
     = (case spawnError host of
          Some msg \<Rightarrow> timers s
        | None \<Rightarrow> timers s @ [(nextTimer s, ReadyTimeout (nextTerminalId s))])"
  "nextTimer (snd (createPanelTerminalWithTitle host t a s))
     = (case spawnError host of Some msg \<Rightarrow> nextTimer s | None \<Rightarrow> Suc (nextTimer s))"
  "nextTerminalId (snd (createPanelTerminalWithTitle host t a s)) = Suc (nextTerminalId s)"
  by (simp_all add: createPanelTerminalWithTitle_def Let_def split_beta registered_def
      newInstance_def delete_update_same update_then_arm split: option.splits)


lemma handlePtyExit_fields [simp]:
  "terminals (handlePtyExit i code s) = terminals s"
  "usedIndices (handlePtyExit i code s) = usedIndices s"
  "ptyInstances (handlePtyExit i code s) = ptyInstances s"
  "nextTerminalId (handlePtyExit i code s) = nextTerminalId s"
  by (simp_all add: handlePtyExit_def split: option.splits)

lemma handlePtyExit_timers:
  "timers (handlePtyExit i code s)
     = (if map_of (terminals s) i = None then timers s
        else timers s @ [(nextTimer s, ExitClose i)])"
  "nextTimer (handlePtyExit i code s)
     = (if map_of (terminals s) i = None then nextTimer s else Suc (nextTimer s))"
  by (simp_all add: handlePtyExit_def split: option.splits)

lemma handleTerminalBell_fields [simp]:
  "terminals (handleTerminalBell host i s) = terminals s"
  "usedIndices (handleTerminalBell host i s) = usedIndices s"
  "ptyInstances (handleTerminalBell host i s) = ptyInstances s"
  "nextTerminalId (handleTerminalBell host i s) = nextTerminalId s"
  by (simp_all add: handleTerminalBell_def split: option.splits)

lemma handleTerminalBell_timers:
  "timers (handleTerminalBell host i s) = timers s
   \<or> timers (handleTerminalBell host i s) = timers s @ [(nextTimer s, BellHide)]"
  by (simp add: handleTerminalBell_def split: option.splits)

lemma handlePtyError_fields [simp]:
  "terminals (handlePtyError host i msg s) = AList.delete i (terminals s)"
  "nextTimer (handlePtyError host i msg s) = nextTimer s"
  "nextTerminalId (handlePtyError host i msg s) = nextTerminalId s"
  by (auto simp: handlePtyError_def Let_def map_of_eq_None_iff split: option.splits)

lemma handlePtyError_usedIndices:
  "usedIndices (handlePtyError host i msg s) = usedIndices (destroyTerminal host i s)"
  by (simp add: handlePtyError_def Let_def destroyTerminal_usedIndices split: option.splits)

lemma handlePtyError_ptyInstances:
  "ptyInstances (handlePtyError host i msg s) = ptyInstances (destroyTerminal host i s)"
  by (simp add: handlePtyError_def Let_def destroyTerminal_ptyInstances split: option.splits)

lemma handlePtyError_timers:
  "timers (handlePtyError host i msg s) = timers (destroyTerminal host i s)"
  by (simp add: handlePtyError_def Let_def destroyTerminal_timers split: option.splits)

lemma rename_fields [simp]:
  "terminals (handleTabRenamed i t s) = AList.map_entry i (\<lambda>x. x\<lparr>title := t\<rparr>) (terminals s)"
  "usedIndices (handleTabRenamed i t s) = usedIndices s"
  "ptyInstances (handleTabRenamed i t s) = ptyInstances s"
  "timers (handleTabRenamed i t s) = timers s"
  "nextTimer (handleTabRenamed i t s) = nextTimer s"
  "nextTerminalId (handleTabRenamed i t s) = nextTerminalId s"
  "terminals (renameTerminal i t s) = AList.map_entry i (\<lambda>x. x\<lparr>title := t\<rparr>) (terminals s)"
  "usedIndices (renameTerminal i t s) = usedIndices s"
  "ptyInstances (renameTerminal i t s) = ptyInstances s"
  "timers (renameTerminal i t s) = timers s"
  "nextTimer (renameTerminal i t s) = nextTimer s"
  "nextTerminalId (renameTerminal i t s) = nextTerminalId s"
  by (simp_all add: handleTabRenamed_def renameTerminal_def Let_def map_entry_absent
      split: option.splits)

lemma readyTimeoutFired_fields [simp]:
  "nextTimer (readyTimeoutFired host i s) = nextTimer s"
  "nextTerminalId (readyTimeoutFired host i s) = nextTerminalId s"
  by (simp_all add: readyTimeoutFired_def Let_def)

lemma readyTimeoutFired_cases:
  "(\<exists>t. map_of (terminals s) i = Some t \<and> ready t \<and> readyTimeoutFired host i s = s)
   \<or> (terminals (readyTimeoutFired host i s) = AList.delete i (terminals s)
      \<and> usedIndices (readyTimeoutFired host i s) = usedIndices (destroyTerminal host i s)
      \<and> ptyInstances (readyTimeoutFired host i s) = ptyInstances (destroyTerminal host i s)
      \<and> timers (readyTimeoutFired host i s) = timers (destroyTerminal host i s))"
  by (auto simp: readyTimeoutFired_def Let_def destroyTerminal_usedIndices
      destroyTerminal_ptyInstances destroyTerminal_timers split: option.splits)

lemma createTerminal_cases:
  "createTerminal host cfg s = createEditorTerminal host cfg s
   \<or> createTerminal host cfg s = createPanelTerminal host cfg s"
  by (simp add: createTerminal_def Let_def)


subsection \<open>The queue never exceeds its cap\<close>

lemma queuesCapped_delete:
  "queuesCapped s \<Longrightarrow> terminals s' = AList.delete k (terminals s) \<Longrightarrow> queuesCapped s'"
  by (auto simp: queuesCapped_def alist_delete_set)

lemma queuesCapped_same:
  "queuesCapped s \<Longrightarrow> terminals s' = terminals s \<Longrightarrow> queuesCapped s'"
  by (simp add: queuesCapped_def)

lemma queuesCapped_map_entry:
  assumes "queuesCapped s" and "terminals s' = AList.map_entry k f (terminals s)"
    and "\<And>t. map_of (terminals s) k = Some t \<Longrightarrow>
           length (dataQueue t) \<le> MAX_DATA_QUEUE_SIZE \<Longrightarrow>
           length (dataQueue (f t)) \<le> MAX_DATA_QUEUE_SIZE"
  shows "queuesCapped s'"
  unfolding queuesCapped_def
proof
  fix e assume "e \<in> set (terminals s')"
  then have "(fst e, snd e) \<in> set (AList.map_entry k f (terminals s))"
    using assms(2) by simp
  then have "(fst e, snd e) \<in> set (terminals s)
      \<or> (fst e = k \<and> (\<exists>v0. map_of (terminals s) k = Some v0 \<and> snd e = f v0))"
    by (rule map_entry_set)
  then show "length (dataQueue (snd e)) \<le> MAX_DATA_QUEUE_SIZE"
  proof
    assume "(fst e, snd e) \<in> set (terminals s)"
    with assms(1) show ?thesis by (fastforce simp: queuesCapped_def)
  next
    assume "fst e = k \<and> (\<exists>v0. map_of (terminals s) k = Some v0 \<and> snd e = f v0)"
    then obtain v0 where v0: "map_of (terminals s) k = Some v0" "snd e = f v0" by blast
    from v0(1) have "(k, v0) \<in> set (terminals s)" by (rule map_of_SomeD)
    with assms(1) have "length (dataQueue v0) \<le> MAX_DATA_QUEUE_SIZE"
      by (fastforce simp: queuesCapped_def)
    with assms(3) [OF v0(1)] v0(2) show ?thesis by simp
  qed
qed

lemma queuesCapped_registered:
  assumes "queuesCapped s" and "terminals s' = registered host s t" and "dataQueue t = []"
  shows "queuesCapped s'"
proof (cases "spawnError host")
  case None
  have "set (AList.update (nextTerminalId s) (t\<lparr>readyTimeout := Some (nextTimer s)\<rparr>) (terminals s))
      \<subseteq> insert (nextTerminalId s, t\<lparr>readyTimeout := Some (nextTimer s)\<rparr>) (set (terminals s))"
    by (rule set_alist_update)
  then show ?thesis
    using assms unfolding queuesCapped_def registered_def None by fastforce
next
  case (Some msg)
  then show ?thesis
    using assms by (auto simp: queuesCapped_def registered_def alist_delete_set)
qed

lemma queuesCapped_create:
  assumes "queuesCapped s"
  shows "queuesCapped (snd (createTerminal host cfg s))"
  using createTerminal_cases [of host cfg s]
proof
  assume "createTerminal host cfg s = createEditorTerminal host cfg s"
  then show ?thesis
    using queuesCapped_registered [OF assms createEditorTerminal_fields(2)]
    by (simp add: newInstance_def)
next
  assume "createTerminal host cfg s = createPanelTerminal host cfg s"
  then show ?thesis
    using queuesCapped_registered [OF assms createPanelTerminal_fields(2)]
    by (simp add: newInstance_def)
qed

lemma queuesCapped_ptyData:
  assumes "queuesCapped s"
  shows "queuesCapped (afterPtyData host i d s)"
proof (cases "map_of (terminals s) i")
  case None
  then show ?thesis
    by (intro queuesCapped_same [OF assms]) (simp add: afterPtyData_terminals)
next
  case (Some inst)
  show ?thesis
  proof (cases "parseOSC7 d")
    case (Inl e)
    then show ?thesis
      using Some by (intro queuesCapped_same [OF assms]) (simp add: afterPtyData_terminals)
  next
    case (Inr dir)
    define push where "push = (\<not> ready inst \<and> length (dataQueue inst) < MAX_DATA_QUEUE_SIZE)"
    have shape: "terminals (afterPtyData host i d s)
        = AList.map_entry i (buffered dir push d) (terminals s)"
      by (simp add: afterPtyData_terminals Some Inr push_def)
    show ?thesis
      using assms shape
    proof (rule queuesCapped_map_entry)
      fix t assume "map_of (terminals s) i = Some t"
        and cap: "length (dataQueue t) \<le> MAX_DATA_QUEUE_SIZE"
      with Some have "t = inst" by simp
      then show "length (dataQueue (buffered dir push d t)) \<le> MAX_DATA_QUEUE_SIZE"
        using cap by (auto simp: buffered_def Let_def push_def split: option.splits)
    qed
  qed
qed

lemma queuesCapped_ready:
  assumes "queuesCapped s"
  shows "queuesCapped (handleTerminalReady host i c r s)"
  using assms handleTerminalReady_terminals
  by (rule queuesCapped_map_entry) (simp add: madeReady_def)

lemma queuesCapped_rename:
  assumes "queuesCapped s"
  shows "queuesCapped (handleTabRenamed i t s)" "queuesCapped (renameTerminal i t s)"
proof -
  show "queuesCapped (handleTabRenamed i t s)"
    using assms rename_fields(1) by (rule queuesCapped_map_entry) simp
  show "queuesCapped (renameTerminal i t s)"
    using assms rename_fields(7) by (rule queuesCapped_map_entry) simp
qed

lemma queuesCapped_timer:
  assumes "queuesCapped s"
  shows "queuesCapped (timerFires host h s)"
proof (cases "map_of (timers s) h")
  case None
  then show ?thesis using assms by (simp add: timerFires_def)
next
  case (Some cb)
  let ?s1 = "s\<lparr>timers := AList.delete h (timers s)\<rparr>"
  have base: "queuesCapped ?s1" using assms by (simp add: queuesCapped_def)
  show ?thesis
  proof (cases cb)
    case (ReadyTimeout k)
    have "queuesCapped (readyTimeoutFired host k ?s1)"
      using readyTimeoutFired_cases [of ?s1 k host] base
      by (auto simp: queuesCapped_def alist_delete_set)
    then show ?thesis by (simp add: timerFires_def Some ReadyTimeout)
  next
    case (ExitClose k)
    have "queuesCapped (destroyTerminal host k ?s1)"
      using base by (rule queuesCapped_delete) simp
    then show ?thesis by (simp add: timerFires_def Some ExitClose)
  next
    case BellHide
    have "queuesCapped (emit DisposeBellItem ?s1)"
      using base by (rule queuesCapped_same) simp
    then show ?thesis by (simp add: timerFires_def Some BellHide)
  qed
qed

lemma queuesCapped_webview:
  assumes "queuesCapped s"
  shows "queuesCapped (handleWebviewMessage host m s)"
proof (cases m)
  case (terminal_ready i c r)
  then show ?thesis using assms by (simp add: queuesCapped_ready)
qed (use assms in \<open>simp_all add: queuesCapped_def handleTerminalInput_def
      handleTerminalResize_def\<close>)

lemma queuesCapped_panel:
  assumes "queuesCapped s"
  shows "queuesCapped (handlePanelMessage host m s)"
proof (cases m)
  case (common w)
  then show ?thesis using assms by (simp add: queuesCapped_webview)
next
  case (tab_activated i c r)
  then show ?thesis
    using assms by (simp add: queuesCapped_def handleTerminalResize_def)
next
  case (tab_close_requested i)
  then show ?thesis using assms by (auto simp: queuesCapped_def alist_delete_set)
next
  case new_tab_requested
  then show ?thesis using assms by (simp add: queuesCapped_create)
next
  case (new_tab_requested_with_title t a)
  then show ?thesis
    using queuesCapped_registered [OF assms createPanelTerminalWithTitle_fields(2)]
    by (simp add: newInstance_def)
next
  case (tab_renamed i t)
  then show ?thesis using assms by (simp add: queuesCapped_rename)
qed (use assms in simp_all)

lemma queuesCapped_step:
  assumes "queuesCapped s"
  shows "queuesCapped (step s (host, ev))"
proof (cases ev)
  case (Create cfg)
  then show ?thesis using assms by (simp add: queuesCapped_create)
next
  case (FromPanel m)
  then show ?thesis using assms by (simp add: queuesCapped_panel)
next
  case (FromWebview m)
  then show ?thesis using assms by (simp add: queuesCapped_webview)
next
  case (PtyData i d)
  have "step s (host, PtyData i d) = afterPtyData host i d s"
    by (simp add: afterPtyData_def)
  then show ?thesis using assms PtyData by (simp add: queuesCapped_ptyData)
next
  case (PtyExit i code)
  then show ?thesis using assms by (simp add: queuesCapped_def)
next
  case (PtyError i msg)
  have "queuesCapped (handlePtyError host i msg s)"
    using assms by (rule queuesCapped_delete) simp
  then have "queuesCapped (ptyKill i (handlePtyError host i msg s))"
    by (rule queuesCapped_same) simp
  then show ?thesis using PtyError by simp
next
  case (TimerFired h)
  then show ?thesis using assms by (simp add: queuesCapped_timer)
next
  case (BatchCheckResolved i b r)
  then show ?thesis using assms by (simp add: queuesCapped_def)
next
  case (PanelDisposed i)
  then show ?thesis using assms by (auto simp: queuesCapped_def alist_delete_set)
next
  case (DestroyTerminalById i)
  then show ?thesis using assms by (auto simp: queuesCapped_def alist_delete_set)
next
  case (RenameTerminal i t)
  then show ?thesis using assms by (simp add: queuesCapped_rename)
next
  case SettingsChanged
  then show ?thesis using assms by (simp add: queuesCapped_def)
next
  case ThemeChanged
  then show ?thesis using assms by (simp add: queuesCapped_def)
qed

lemma queuesCapped_run: "queuesCapped s \<Longrightarrow> queuesCapped (run events s)"
  unfolding run_def
  by (induction events arbitrary: s) (auto simp: queuesCapped_step)

lemma queuesCapped_reachable: "queuesCapped (run events initialManager)"
  by (rule queuesCapped_run) (simp add: queuesCapped_def initialManager_def)


subsection \<open>Every event is one of five changes\<close>

lemma quiet_refl: "quiet s s"
  by (simp add: quiet_def)

lemma quiet_same:
  "terminals s' = terminals s \<Longrightarrow> usedIndices s' = usedIndices s \<Longrightarrow>
   ptyInstances s' = ptyInstances s \<Longrightarrow> nextTerminalId s' = nextTerminalId s \<Longrightarrow>
   timers s' = timers s \<Longrightarrow> quiet s s'"
  by (simp add: quiet_def)

lemma alist_delete_subset: "set (AList.delete h al) \<subseteq> set al"
  by (auto simp: alist_delete_set)

lemma alist_delete_no_key: "h \<notin> fst ` set (AList.delete h al)"
  by (auto simp: alist_delete_set)

lemma destroyTerminal_destroys: "destroys k s (destroyTerminal host k s)"
  by (auto simp: destroys_def destroyTerminal_usedIndices destroyTerminal_ptyInstances
      destroyTerminal_timers alist_delete_set split: option.splits)

lemma destroys_after_timer:
  assumes "destroys k (s\<lparr>timers := AList.delete h (timers s)\<rparr>) s'"
  shows "destroys k s s'"
  using assms alist_delete_subset [of h "timers s"]
  by (auto simp: destroys_def split: option.splits)

lemma handleTerminalReady_readies: "readies k s (handleTerminalReady host k c r s)"
  by (auto simp: readies_def handleTerminalReady_terminals handleTerminalReady_timers
      alist_delete_set split: option.splits)

lemma afterPtyData_touches:
  "quiet s (afterPtyData host k d s) \<or> (\<exists>f. touches k f s (afterPtyData host k d s))"
proof (cases "map_of (terminals s) k")
  case None
  then have "quiet s (afterPtyData host k d s)"
    by (intro quiet_same) (simp_all add: afterPtyData_terminals)
  then show ?thesis by blast
next
  case (Some inst)
  show ?thesis
  proof (cases "parseOSC7 d")
    case (Inl e)
    then have "quiet s (afterPtyData host k d s)"
      using Some by (intro quiet_same) (simp_all add: afterPtyData_terminals)
    then show ?thesis by blast
  next
    case (Inr dir)
    have "touches k (buffered dir
        (\<not> ready inst \<and> length (dataQueue inst) < MAX_DATA_QUEUE_SIZE) d) s
        (afterPtyData host k d s)"
      by (simp add: touches_def afterPtyData_terminals Some Inr buffered_def Let_def
          split: option.splits)
    then show ?thesis by blast
  qed
qed

lemma rename_touches:
  "touches k (\<lambda>x. x\<lparr>title := t\<rparr>) s (handleTabRenamed k t s)"
  "touches k (\<lambda>x. x\<lparr>title := t\<rparr>) s (renameTerminal k t s)"
  by (simp_all add: touches_def rename_fields)

lemma create_creates:
  "\<exists>t. creates host t s (snd (createEditorTerminal host cfg s))
       \<and> takesNextIndex host t s (snd (createEditorTerminal host cfg s))"
  "\<exists>t. creates host t s (snd (createPanelTerminal host cfg s))
       \<and> takesNextIndex host t s (snd (createPanelTerminal host cfg s))"
  "\<exists>t. creates host t s (snd (createPanelTerminalWithTitle host title' a s))"
proof -
  let ?cfg = "case cfg of Some c \<Rightarrow> c | None \<Rightarrow> emptyConfig"
  let ?n = "nextFree 1 (usedIndices s)"
  have "creates host (newInstance Editor ?cfg (terminalTitle ?n) (Some ?n)) s
          (snd (createEditorTerminal host cfg s))
      \<and> takesNextIndex host (newInstance Editor ?cfg (terminalTitle ?n) (Some ?n)) s
          (snd (createEditorTerminal host cfg s))"
    by (auto simp: creates_def takesNextIndex_def createEditorTerminal_fields newInstance_def)
  then show "\<exists>t. creates host t s (snd (createEditorTerminal host cfg s))
       \<and> takesNextIndex host t s (snd (createEditorTerminal host cfg s))"
    by blast
  have "creates host (newInstance Panel ?cfg (terminalTitle ?n) (Some ?n)) s
          (snd (createPanelTerminal host cfg s))
      \<and> takesNextIndex host (newInstance Panel ?cfg (terminalTitle ?n) (Some ?n)) s
          (snd (createPanelTerminal host cfg s))"
    by (auto simp: creates_def takesNextIndex_def createPanelTerminal_fields newInstance_def)
  then show "\<exists>t. creates host t s (snd (createPanelTerminal host cfg s))
       \<and> takesNextIndex host t s (snd (createPanelTerminal host cfg s))"
    by blast
  have "creates host (newInstance Panel (emptyConfig\<lparr>cwd := workspaceCwd host\<rparr>) title'
          (titleIndex title')) s (snd (createPanelTerminalWithTitle host title' a s))"
    by (auto simp: creates_def createPanelTerminalWithTitle_fields newInstance_def)
  then show "\<exists>t. creates host t s (snd (createPanelTerminalWithTitle host title' a s))"
    by blast
qed

lemma createTerminal_creates:
  "\<exists>t. creates host t s (snd (createTerminal host cfg s))
       \<and> takesNextIndex host t s (snd (createTerminal host cfg s))"
  using createTerminal_cases [of host cfg s] create_creates(1,2) [of host s cfg]
  by auto

lemma timerFires_class:
  "quiet s (timerFires host h s) \<or> (\<exists>k. destroys k s (timerFires host h s))"
proof (cases "map_of (timers s) h")
  case None
  then show ?thesis by (simp add: timerFires_def quiet_refl)
next
  case (Some cb)
  define s1 where "s1 = s\<lparr>timers := AList.delete h (timers s)\<rparr>"
  have q1: "quiet s s1"
    by (auto simp: quiet_def s1_def alist_delete_set)
  have d1: "destroys k s s'" if "destroys k s1 s'" for k s'
    using that unfolding s1_def by (rule destroys_after_timer)
  show ?thesis
  proof (cases cb)
    case (ReadyTimeout k)
    have fires: "timerFires host h s = readyTimeoutFired host k s1"
      by (simp add: timerFires_def Some ReadyTimeout s1_def)
    show ?thesis
    proof (cases "\<exists>t. map_of (terminals s1) k = Some t \<and> ready t")
      case True
      then have "readyTimeoutFired host k s1 = s1"
        by (auto simp: readyTimeoutFired_def)
      then show ?thesis using q1 fires by simp
    next
      case False
      define s2 where
        "s2 = emit (ShowErrorMessage ''Terminal failed to initialize (timeout)'') s1"
      from False have "readyTimeoutFired host k s1 = destroyTerminal host k s2"
        by (auto simp: readyTimeoutFired_def s2_def split: option.splits)
      moreover have "destroys k s1 (destroyTerminal host k s2)"
        using destroyTerminal_destroys [of k s2 host]
        by (auto simp: destroys_def s2_def split: option.splits)
      ultimately have "destroys k s (timerFires host h s)"
        using fires d1 by simp
      then show ?thesis by blast
    qed
  next
    case (ExitClose k)
    have "timerFires host h s = destroyTerminal host k s1"
      by (simp add: timerFires_def Some ExitClose s1_def)
    moreover have "destroys k s1 (destroyTerminal host k s1)"
      by (rule destroyTerminal_destroys)
    ultimately have "destroys k s (timerFires host h s)"
      using d1 by simp
    then show ?thesis by blast
  next
    case BellHide
    have "timerFires host h s = emit DisposeBellItem s1"
      by (simp add: timerFires_def Some BellHide s1_def)
    moreover have "quiet s (emit DisposeBellItem s1)"
      using q1 by (simp add: quiet_def)
    ultimately show ?thesis by simp
  qed
qed

lemma handleWebviewMessage_class:
  "quiet s (handleWebviewMessage host m s)
   \<or> (\<exists>k. readies k s (handleWebviewMessage host m s))"
proof (cases m)
  case (terminal_ready k c r)
  then show ?thesis using handleTerminalReady_readies [of k s host c r] by auto
next
  case (terminal_bell k)
  have "quiet s (handleTerminalBell host k s)"
    using handleTerminalBell_timers [of host k s] by (auto simp: quiet_def)
  then show ?thesis using terminal_bell by simp
qed (simp_all add: quiet_def handleTerminalInput_def handleTerminalResize_def)

lemma step_class:
  "quiet s (step s (host, ev))
   \<or> (\<exists>k f. touches k f s (step s (host, ev)))
   \<or> (\<exists>k. readies k s (step s (host, ev)))
   \<or> (\<exists>k. destroys k s (step s (host, ev)))
   \<or> (\<exists>t. creates host t s (step s (host, ev))
          \<and> (restoresTitle ev \<or> takesNextIndex host t s (step s (host, ev))))"
proof (cases ev)
  case (Create cfg)
  then show ?thesis using createTerminal_creates [of host s cfg] by auto
next
  case (FromPanel m)
  show ?thesis
  proof (cases m)
    case (common w)
    then show ?thesis using handleWebviewMessage_class [of s host w] FromPanel by auto
  next
    case panel_ready
    then show ?thesis using FromPanel by (simp add: quiet_refl)
  next
    case (tab_activated k c r)
    then show ?thesis using FromPanel by (simp add: quiet_def handleTerminalResize_def)
  next
    case (tab_close_requested k)
    then show ?thesis using FromPanel destroyTerminal_destroys [of k s host] by auto
  next
    case new_tab_requested
    then show ?thesis
      using FromPanel
        createTerminal_creates [of host s
          "Some (emptyConfig\<lparr>location := Some Panel, cwd := workspaceCwd host\<rparr>)"]
      by auto
  next
    case (new_tab_requested_with_title t a)
    then show ?thesis using FromPanel create_creates(3) [of host s t a] by auto
  next
    case (tab_renamed k t)
    then show ?thesis using FromPanel rename_touches(1) [of k t s] by auto
  next
    case toggle_panel_requested
    then show ?thesis using FromPanel by (simp add: quiet_refl)
  qed
next
  case (FromWebview m)
  then show ?thesis using handleWebviewMessage_class [of s host m] by auto
next
  case (PtyData k d)
  have "step s (host, PtyData k d) = afterPtyData host k d s"
    by (simp add: afterPtyData_def)
  then show ?thesis using PtyData afterPtyData_touches [of s host k d] by auto
next
  case (PtyExit k code)
  have "quiet s (handlePtyExit k code s)"
    by (auto simp: quiet_def handlePtyExit_timers)
  then show ?thesis using PtyExit by simp
next
  case (PtyError k msg)
  have "destroys k s (ptyKill k (handlePtyError host k msg s))"
    using destroyTerminal_destroys [of k s host]
    by (auto simp: destroys_def handlePtyError_usedIndices handlePtyError_ptyInstances
        handlePtyError_timers)
  then show ?thesis using PtyError by auto
next
  case (TimerFired h)
  then show ?thesis using timerFires_class [of s host h] by auto
next
  case (BatchCheckResolved k b r)
  then show ?thesis by (simp add: quiet_def)
next
  case (PanelDisposed k)
  then show ?thesis using destroyTerminal_destroys [of k s host] by auto
next
  case (DestroyTerminalById k)
  then show ?thesis using destroyTerminal_destroys [of k s host] by auto
next
  case (RenameTerminal k t)
  then show ?thesis using rename_touches(2) [of k t s] by auto
next
  case SettingsChanged
  then show ?thesis by (simp add: quiet_def)
next
  case ThemeChanged
  then show ?thesis by (simp add: quiet_def)
qed


subsection \<open>Identifiers, processes and ready timeouts of reachable states\<close>

lemma registered_key: "map_of al k = Some t \<Longrightarrow> k \<in> fst ` set al"
  by (auto dest: map_of_SomeD intro: rev_image_eqI)

lemma idsFresh_keys:
  assumes "idsFresh s" "map fst (terminals s') = map fst (terminals s)"
    "nextTerminalId s' = nextTerminalId s"
  shows "idsFresh s'"
proof -
  have "fst ` set (terminals s') = fst ` set (terminals s)"
    using assms(2) by (metis list.set_map)
  then show ?thesis
    using assms unfolding idsFresh_def by (metis imageI image_iff)
qed


lemma idsFresh_step:
  assumes "idsFresh s"
  shows "idsFresh (step s (host, ev))"
proof -
  let ?s' = "step s (host, ev)"
  consider "quiet s ?s'" | k f where "touches k f s ?s'" | k where "readies k s ?s'"
    | k where "destroys k s ?s'" | t where "creates host t s ?s'"
    using step_class [of s host ev] by blast
  then show ?thesis
  proof cases
    case 1
    then show ?thesis by (intro idsFresh_keys [OF assms]) (simp_all add: quiet_def)
  next
    case 2
    then show ?thesis
      by (intro idsFresh_keys [OF assms]) (simp_all add: touches_def map_entry_keys)
  next
    case 3
    then show ?thesis
      by (intro idsFresh_keys [OF assms]) (simp_all add: readies_def map_entry_keys)
  next
    case 4
    then have "terminals ?s' = AList.delete k (terminals s)"
      "nextTerminalId ?s' = nextTerminalId s"
      by (simp_all add: destroys_def)
    then show ?thesis
      using assms unfolding idsFresh_def
      by (auto simp: alist_delete_set distinct_delete)
  next
    case 5
    then have t: "terminals ?s' = registered host s t"
      and n: "nextTerminalId ?s' = Suc (nextTerminalId s)"
      by (simp_all add: creates_def)
    show ?thesis
    proof (cases "spawnError host")
      case None
      have "fst e < Suc (nextTerminalId s)" if "e \<in> set (terminals ?s')" for e
      proof -
        from that have "fst e \<in> fst ` set (terminals ?s')" by simp
        then have "fst e \<in> insert (nextTerminalId s) (fst ` set (terminals s))"
          by (simp add: t registered_def None dom_update)
        then show ?thesis using assms unfolding idsFresh_def by auto
      qed
      moreover have "distinct (map fst (terminals ?s'))"
        using assms unfolding idsFresh_def by (simp add: t registered_def None distinct_update)
      ultimately show ?thesis unfolding idsFresh_def n by blast
    next
      case (Some msg)
      then show ?thesis
        using assms unfolding idsFresh_def n
        by (auto simp: t registered_def alist_delete_set distinct_delete less_Suc_eq)
    qed
  qed
qed







subsection \<open>A pending ready timeout belongs to a registered terminal that is not ready\<close>

lemma readyTimersOwned_kept:
  assumes "readyTimersOwned s"
    and "\<And>e k t. e \<in> set (timers s') \<Longrightarrow> snd e = ReadyTimeout k \<Longrightarrow>
           e \<in> set (timers s)
           \<and> (map_of (terminals s) k = Some t \<longrightarrow> readyTimeout t = Some (fst e) \<longrightarrow> \<not> ready t \<longrightarrow>
                (\<exists>t'. map_of (terminals s') k = Some t' \<and> readyTimeout t' = Some (fst e)
                      \<and> \<not> ready t'))"
  shows "readyTimersOwned s'"
  unfolding readyTimersOwned_def
proof (intro ballI allI impI)
  fix e k
  assume e: "e \<in> set (timers s')" and k: "snd e = ReadyTimeout k"
  from assms(2) [OF e k] have old: "e \<in> set (timers s)" by blast
  with assms(1) k obtain t where t: "map_of (terminals s) k = Some t"
    "readyTimeout t = Some (fst e)" "\<not> ready t"
    unfolding readyTimersOwned_def by blast
  with assms(2) [OF e k, of t]
  show "\<exists>t. map_of (terminals s') k = Some t \<and> readyTimeout t = Some (fst e) \<and> \<not> ready t"
    by blast
qed

lemma fresh_not_registered:
  assumes "idsFresh s" "map_of (terminals s) k = Some t"
  shows "k \<noteq> nextTerminalId s"
proof -
  from assms(2) have "(k, t) \<in> set (terminals s)" by (rule map_of_SomeD)
  with assms(1) have "k < nextTerminalId s" unfolding idsFresh_def by fastforce
  then show ?thesis by simp
qed

lemma readyTimersOwned_quiet:
  assumes "readyTimersOwned s" "quiet s s'"
  shows "readyTimersOwned s'"
  using assms(2)
  by (intro readyTimersOwned_kept [OF assms(1)]) (auto simp: quiet_def)

lemma readyTimersOwned_touches:
  assumes "readyTimersOwned s" "touches k0 f s s'"
  shows "readyTimersOwned s'"
proof (rule readyTimersOwned_kept [OF assms(1)], intro conjI impI)
  fix e k t
  assume e: "e \<in> set (timers s')" and "snd e = ReadyTimeout k"
  from assms(2) e show "e \<in> set (timers s)" by (simp add: touches_def)
  assume t: "map_of (terminals s) k = Some t" "readyTimeout t = Some (fst e)" "\<not> ready t"
  from assms(2) have ts: "terminals s' = AList.map_entry k0 f (terminals s)"
    and f: "\<And>x. ready (f x) = ready x \<and> readyTimeout (f x) = readyTimeout x"
    by (simp_all add: touches_def)
  show "\<exists>t'. map_of (terminals s') k = Some t' \<and> readyTimeout t' = Some (fst e) \<and> \<not> ready t'"
  proof (cases "k = k0")
    case True
    then have "map_of (terminals s') k = Some (f t)"
      using t(1) by (simp add: ts map_of_map_entry_same)
    then show ?thesis using t f by simp
  next
    case False
    then have "map_of (terminals s') k = Some t"
      using t(1) by (simp add: ts map_of_map_entry_other)
    then show ?thesis using t by simp
  qed
qed

lemma readyTimersOwned_readies:
  assumes "readyTimersOwned s" "readies k0 s s'"
  shows "readyTimersOwned s'"
proof (rule readyTimersOwned_kept [OF assms(1)], intro conjI impI)
  fix e k t
  assume e: "e \<in> set (timers s')" and "snd e = ReadyTimeout k"
  from assms(2) e show "e \<in> set (timers s)" by (auto simp: readies_def)
  assume t: "map_of (terminals s) k = Some t" "readyTimeout t = Some (fst e)" "\<not> ready t"
  from assms(2) have ts: "terminals s' = AList.map_entry k0 madeReady (terminals s)"
    and gone: "\<And>x h. map_of (terminals s) k0 = Some x \<Longrightarrow> readyTimeout x = Some h \<Longrightarrow>
                 h \<notin> fst ` set (timers s')"
    by (simp_all add: readies_def)
  have "k \<noteq> k0"
  proof
    assume "k = k0"
    with t gone have "fst e \<notin> fst ` set (timers s')" by blast
    with e show False by simp
  qed
  then have "map_of (terminals s') k = Some t"
    using t(1) by (simp add: ts map_of_map_entry_other)
  then show "\<exists>t'. map_of (terminals s') k = Some t' \<and> readyTimeout t' = Some (fst e)
      \<and> \<not> ready t'"
    using t by simp
qed

lemma readyTimersOwned_destroys:
  assumes "readyTimersOwned s" "destroys k0 s s'"
  shows "readyTimersOwned s'"
proof (rule readyTimersOwned_kept [OF assms(1)], intro conjI impI)
  fix e k t
  assume e: "e \<in> set (timers s')" and "snd e = ReadyTimeout k"
  from assms(2) e show "e \<in> set (timers s)" by (auto simp: destroys_def)
  assume t: "map_of (terminals s) k = Some t" "readyTimeout t = Some (fst e)" "\<not> ready t"
  from assms(2) have ts: "terminals s' = AList.delete k0 (terminals s)"
    and gone: "\<And>x h. map_of (terminals s) k0 = Some x \<Longrightarrow> readyTimeout x = Some h \<Longrightarrow>
                 h \<notin> fst ` set (timers s')"
    by (simp_all add: destroys_def)
  have "k \<noteq> k0"
  proof
    assume "k = k0"
    with t gone have "fst e \<notin> fst ` set (timers s')" by blast
    with e show False by simp
  qed
  then have "map_of (terminals s') k = Some t"
    using t(1) by (simp add: ts delete_conv')
  then show "\<exists>t'. map_of (terminals s') k = Some t' \<and> readyTimeout t' = Some (fst e)
      \<and> \<not> ready t'"
    using t by simp
qed

lemma readyTimersOwned_creates:
  assumes "readyTimersOwned s" "idsFresh s" "creates host t0 s s'"
  shows "readyTimersOwned s'"
proof (cases "spawnError host")
  case (Some msg)
  from assms(3) have ts: "terminals s' = AList.delete (nextTerminalId s) (terminals s)"
    and tm: "timers s' = timers s"
    by (simp_all add: creates_def registered_def Some)
  show ?thesis
  proof (rule readyTimersOwned_kept [OF assms(1)], intro conjI impI)
    fix e k t
    assume e: "e \<in> set (timers s')" and "snd e = ReadyTimeout k"
    from e show "e \<in> set (timers s)" by (simp add: tm)
    assume t: "map_of (terminals s) k = Some t" "readyTimeout t = Some (fst e)" "\<not> ready t"
    have "k \<noteq> nextTerminalId s" using assms(2) t(1) by (rule fresh_not_registered)
    then have "map_of (terminals s') k = Some t"
      using t(1) by (simp add: ts delete_conv')
    then show "\<exists>t'. map_of (terminals s') k = Some t' \<and> readyTimeout t' = Some (fst e)
        \<and> \<not> ready t'"
      using t by simp
  qed
next
  case None
  let ?new = "t0\<lparr>readyTimeout := Some (nextTimer s)\<rparr>"
  from assms(3) have ts: "terminals s' = AList.update (nextTerminalId s) ?new (terminals s)"
    and tm: "timers s' = timers s @ [(nextTimer s, ReadyTimeout (nextTerminalId s))]"
    and nr: "\<not> ready t0"
    by (simp_all add: creates_def registered_def None)
  show ?thesis
    unfolding readyTimersOwned_def
  proof (intro ballI allI impI)
    fix e k
    assume e: "e \<in> set (timers s')" and k: "snd e = ReadyTimeout k"
    show "\<exists>t. map_of (terminals s') k = Some t \<and> readyTimeout t = Some (fst e) \<and> \<not> ready t"
    proof (cases "e \<in> set (timers s)")
      case True
      with assms(1) k obtain t where t: "map_of (terminals s) k = Some t"
        "readyTimeout t = Some (fst e)" "\<not> ready t"
        unfolding readyTimersOwned_def by blast
      have "k \<noteq> nextTerminalId s" using assms(2) t(1) by (rule fresh_not_registered)
      then have "map_of (terminals s') k = Some t"
        using t(1) by (simp add: ts update_conv')
      then show ?thesis using t by simp
    next
      case False
      with e have "e = (nextTimer s, ReadyTimeout (nextTerminalId s))" by (simp add: tm)
      with k have "k = nextTerminalId s" "fst e = nextTimer s" by simp_all
      then have "map_of (terminals s') k = Some ?new" by (simp add: ts update_conv')
      then show ?thesis using nr \<open>fst e = nextTimer s\<close> by simp
    qed
  qed
qed

lemma readyTimersOwned_step:
  assumes "readyTimersOwned s" "idsFresh s"
  shows "readyTimersOwned (step s (host, ev))"
proof -
  let ?s' = "step s (host, ev)"
  consider "quiet s ?s'" | k f where "touches k f s ?s'" | k where "readies k s ?s'"
    | k where "destroys k s ?s'" | t where "creates host t s ?s'"
    using step_class [of s host ev] by blast
  then show ?thesis
  proof cases
    case 1
    with assms(1) show ?thesis by (rule readyTimersOwned_quiet)
  next
    case 2
    with assms(1) show ?thesis by (rule readyTimersOwned_touches)
  next
    case 3
    with assms(1) show ?thesis by (rule readyTimersOwned_readies)
  next
    case 4
    with assms(1) show ?thesis by (rule readyTimersOwned_destroys)
  next
    case 5
    with assms show ?thesis by (rule readyTimersOwned_creates)
  qed
qed

lemma readyTimersOwned_run:
  "readyTimersOwned s \<Longrightarrow> idsFresh s \<Longrightarrow> readyTimersOwned (run events s)"
  unfolding run_def
proof (induction events arbitrary: s)
  case Nil
  then show ?case by simp
next
  case (Cons e events)
  have "readyTimersOwned (step s e)"
    using readyTimersOwned_step [OF Cons.prems, of "fst e" "snd e"] by simp
  moreover have "idsFresh (step s e)"
    using idsFresh_step [OF Cons.prems(2), of "fst e" "snd e"] by simp
  ultimately show ?case using Cons.IH by simp
qed

lemma readyTimersOwned_reachable: "readyTimersOwned (run events initialManager)"
  by (rule readyTimersOwned_run)
    (simp_all add: readyTimersOwned_def idsFresh_def initialManager_def)

lemma ready_timer_registered:
  assumes "(h, ReadyTimeout k) \<in> set (timers (run events initialManager))"
  shows "\<exists>t. map_of (terminals (run events initialManager)) k = Some t
             \<and> readyTimeout t = Some h \<and> \<not> ready t"
  using readyTimersOwned_reachable [of events] assms
  unfolding readyTimersOwned_def by fastforce


subsection \<open>Example runs\<close>

lemma step_ptyData: "step s (host, PtyData k d) = afterPtyData host k d s"
  by (simp add: afterPtyData_def)

lemma run_snoc: "run (events @ [e]) s = step (run events s) e"
  by (simp add: run_def)

lemma parseOSC7_plain:
  "parseOSC7 (js ''a'') = Inr None" "parseOSC7 (js ''b'') = Inr None"
  "parseOSC7 (js ''c'') = Inr None" "parseOSC7 (js ''x'') = Inr None"
  by (simp_all add: js_def parseOSC7_def OSC7_PREFIX_def startsWith_def)

lemma parseOSC7_malformed: "parseOSC7 malformedCwdChunk = Inl URIError"
  by (simp add: malformedCwdChunk_def js_def parseOSC7_def OSC7_PREFIX_def startsWith_def
      payloadThenTerminator_def payloadChar_def hexDigit_def)

lemma created_first:
  "terminals (snd (createTerminal exampleHost None initialManager))
     = [(0, (newInstance Panel emptyConfig (terminalTitle 1) (Some 1))\<lparr>readyTimeout := Some 0\<rparr>)]"
  by (simp add: createTerminal_def createPanelTerminal_fields registered_def
      exampleHost_def initialManager_def nextFree.simps)

lemma filled_run:
  assumes "n \<le> MAX_DATA_QUEUE_SIZE"
  shows "terminals (run ((exampleHost, Create None) # replicate n (exampleHost, PtyData 0 (js ''x'')))
                      initialManager)
           = [(0, (newInstance Panel emptyConfig (terminalTitle 1) (Some 1))
                    \<lparr>readyTimeout := Some 0, dataQueue := replicate n (js ''x'')\<rparr>)]"
  using assms
proof (induction n)
  case 0
  then show ?case by (simp add: run_def created_first newInstance_def)
next
  case (Suc n)
  let ?events = "(exampleHost, Create None) # replicate n (exampleHost, PtyData 0 (js ''x''))"
  have "(exampleHost, Create None) # replicate (Suc n) (exampleHost, PtyData 0 (js ''x''))
      = ?events @ [(exampleHost, PtyData 0 (js ''x''))]"
    by (simp add: replicate_append_same)
  then have "terminals (run ((exampleHost, Create None)
        # replicate (Suc n) (exampleHost, PtyData 0 (js ''x''))) initialManager)
      = terminals (afterPtyData exampleHost 0 (js ''x'') (run ?events initialManager))"
    by (simp only: run_snoc step_ptyData)
  also have "\<dots> = [(0, (newInstance Panel emptyConfig (terminalTitle 1) (Some 1))
        \<lparr>readyTimeout := Some 0, dataQueue := replicate (Suc n) (js ''x'')\<rparr>)]"
    using Suc
    by (simp add: afterPtyData_terminals parseOSC7_plain buffered_def newInstance_def
        replicate_append_same)
  finally show ?case .
qed

lemma sessionAtCap_terminals:
  "terminals sessionAtCap
     = [(0, (newInstance Panel emptyConfig (terminalTitle 1) (Some 1))
              \<lparr>readyTimeout := Some 0,
               dataQueue := replicate MAX_DATA_QUEUE_SIZE (js ''x'')\<rparr>)]"
  unfolding sessionAtCap_def by (rule filled_run) simp


subsection \<open>The ready handshake\<close>









subsection \<open>The cap of the queue\<close>

lemma dataQueue_capped:
  assumes "map_of (terminals (run events initialManager)) i = Some inst"
  shows "length (dataQueue inst) \<le> MAX_DATA_QUEUE_SIZE"
proof -
  from assms have "(i, inst) \<in> set (terminals (run events initialManager))"
    by (rule map_of_SomeD)
  then show ?thesis
    using queuesCapped_reachable [of events] unfolding queuesCapped_def by fastforce
qed

lemma handlePtyData_drops_at_cap:
  assumes "map_of (terminals s) i = Some inst" "\<not> ready inst"
    "length (dataQueue inst) = MAX_DATA_QUEUE_SIZE" "parseOSC7 d = Inr dir"
  shows "\<exists>s'. handlePtyData host i d s = Inr s'
            \<and> map_option dataQueue (map_of (terminals s') i) = Some (dataQueue inst)"
proof -
  from assms(1,4) obtain s' where s': "handlePtyData host i d s = Inr s'"
    by (simp add: handlePtyData_def Let_def)
  then have "afterPtyData host i d s = s'" by (simp add: afterPtyData_def)
  then have "terminals s' = AList.map_entry i (buffered dir False d) (terminals s)"
    using afterPtyData_terminals [of host i d s] assms by simp
  then have "map_option dataQueue (map_of (terminals s') i) = Some (dataQueue inst)"
    using assms(1) by (simp add: map_of_map_entry_same buffered_def split: option.splits)
  with s' show ?thesis by blast
qed

text \<open>
  C3. In every state the manager reaches no queue holds more than
  \<^verbatim>\<open>MAX_DATA_QUEUE_SIZE\<close> chunks (\<open>dataQueue_capped\<close>), and a chunk that arrives for a
  terminal that is not ready and whose queue is at the cap leaves the queue as it is
  when \<^verbatim>\<open>parseOSC7\<close> returns (\<open>handlePtyData_drops_at_cap\<close>). The handler does raise,
  though: the terminal of \<^verbatim>\<open>sessionAtCap\<close> is registered, not ready and its queue holds
  exactly \<^verbatim>\<open>MAX_DATA_QUEUE_SIZE\<close> chunks, and \<^verbatim>\<open>handlePtyData\<close> for the chunk
  \<^verbatim>\<open>ESC ] 7 ; file://h/% BEL\<close> ends in the \<^verbatim>\<open>URIError\<close> of \<^verbatim>\<open>decodeURIComponent\<close>.
\<close>

theorem handlePtyData_raises_at_cap:
  "(\<exists>inst. map_of (terminals sessionAtCap) 0 = Some inst \<and> \<not> ready inst
          \<and> length (dataQueue inst) = MAX_DATA_QUEUE_SIZE)
   \<and> handlePtyData exampleHost 0 malformedCwdChunk sessionAtCap = Inl URIError"
  by (simp add: sessionAtCap_terminals newInstance_def handlePtyData_def parseOSC7_malformed)


subsection \<open>Timers of a terminal that is no longer registered\<close>

lemma created_first_timers:
  "timers (snd (createTerminal exampleHost None initialManager)) = [(0, ReadyTimeout 0)]"
  "nextTimer (snd (createTerminal exampleHost None initialManager)) = 1"
  by (simp_all add: createTerminal_def createPanelTerminal_fields exampleHost_def
      initialManager_def)

lemma closedAfterExit_state:
  "terminals closedAfterExit = []" "timers closedAfterExit = [(1, ExitClose 0)]"
  by (simp_all add: closedAfterExit_def run_def handlePtyExit_timers destroyTerminal_timers
      created_first created_first_timers newInstance_def)

lemma exit_timer_stale:
  assumes "map_of (terminals s) k = None" "map_of (timers s) h = Some (ExitClose k)"
  shows "timerFires host h s = s\<lparr>timers := AList.delete h (timers s)\<rparr>"
  using assms by (simp add: timerFires_def destroyTerminal_absent)

text \<open>
  C9, as the code has it. In every state the manager reaches, a terminal that is not
  registered has no ready timeout pending: whatever removed it (the close of its tab or
  panel, an error of its process, the delayed close after the exit of its process, its
  own ready timeout) went through \<^verbatim>\<open>destroyTerminal\<close>, which clears the stored timeout.
  The timer of the delayed close after an exit is cleared by nothing; when it fires for
  a terminal that is no longer registered it leaves the timer table and nothing else
  changes.
\<close>

theorem teardown_timers:
  assumes "map_of (terminals (run events initialManager)) k = None"
  shows "(\<forall>h. (h, ReadyTimeout k) \<notin> set (timers (run events initialManager)))
         \<and> (\<forall>h. map_of (timers (run events initialManager)) h = Some (ExitClose k) \<longrightarrow>
                timerFires host h (run events initialManager)
                  = (run events initialManager)
                      \<lparr>timers := AList.delete h (timers (run events initialManager))\<rparr>)"
proof (intro conjI allI impI)
  fix h
  show "(h, ReadyTimeout k) \<notin> set (timers (run events initialManager))"
  proof
    assume "(h, ReadyTimeout k) \<in> set (timers (run events initialManager))"
    then obtain t where "map_of (terminals (run events initialManager)) k = Some t"
      using ready_timer_registered by blast
    with assms show False by simp
  qed
next
  fix h
  assume "map_of (timers (run events initialManager)) h = Some (ExitClose k)"
  with assms show "timerFires host h (run events initialManager)
      = (run events initialManager)
          \<lparr>timers := AList.delete h (timers (run events initialManager))\<rparr>"
    by (rule exit_timer_stale)
qed

theorem teardown_timers_witness:
  "(0, ReadyTimeout 0)
     \<notin> set (timers (run [(exampleHost, Create None), (exampleHost, PtyExit 0 0),
                          (exampleHost, FromPanel (tab_close_requested 0))] initialManager))
   \<and> timerFires exampleHost 1
       (run [(exampleHost, Create None), (exampleHost, PtyExit 0 0),
             (exampleHost, FromPanel (tab_close_requested 0))] initialManager)
     = (run [(exampleHost, Create None), (exampleHost, PtyExit 0 0),
             (exampleHost, FromPanel (tab_close_requested 0))] initialManager)
         \<lparr>timers := AList.delete 1
            (timers (run [(exampleHost, Create None), (exampleHost, PtyExit 0 0),
                          (exampleHost, FromPanel (tab_close_requested 0))] initialManager))\<rparr>"
proof -
  let ?events = "[(exampleHost, Create None), (exampleHost, PtyExit 0 0),
                  (exampleHost, FromPanel (tab_close_requested 0))]"
  have gone: "map_of (terminals (run ?events initialManager)) 0 = None"
    using closedAfterExit_state(1) by (simp add: closedAfterExit_def)
  have pending: "map_of (timers (run ?events initialManager)) 1 = Some (ExitClose 0)"
    using closedAfterExit_state(2) by (simp add: closedAfterExit_def)
  show ?thesis
    using teardown_timers [OF gone, of exampleHost] pending by blast
qed

text \<open>
  The timer of the delayed close stays armed: the process of terminal 0 exits, its tab
  is closed, and the timer set at the exit is still pending for the removed terminal.
\<close>

theorem exit_timer_survives_close:
  "map_of (terminals closedAfterExit) 0 = None
   \<and> (1, ExitClose 0) \<in> set (timers closedAfterExit)"
  by (simp add: closedAfterExit_state)


subsection \<open>Indices\<close>


















end
